theory Spec2Isabelle
  imports Complex_Main "HOL-Library.Word" "HOL-Library.Signed_Division"
    "HOL-Library.Char_ord" "HOL-Library.List_Lexorder"
begin

section \<open>Values\<close>

text \<open>
  The C++ \<open>int\<close> of ratings is a 32-bit two's complement word; \<open>sint\<close> reads it.
  Document ids are \<open>int\<close>s on which the code does no arithmetic (only \<open>< 0\<close>, equality
  and the ordering of the containers), so they are mathematical integers here.
  A \<open>double\<close> is idealised as a real number: rounding is not modelled.
  A \<open>string_view\<close> is the string it views while the viewed text lives. The keys of
  \<open>word_to_document_freqs_\<close> are views into stored document texts, and \<open>RemoveDocument\<close>
  destroys such a text without removing the key; which key views which text, and whether
  that text still lives, is followed apart (\<open>key_view\<close>, \<open>track\<close>). The functions below
  say what the code does as long as it reads no destroyed text.
\<close>

type_synonym int32 = "32 word"

datatype DocumentStatus = ACTUAL | IRRELEVANT | BANNED | REMOVED

text \<open>
  \<open>invalid_argument\<close> and \<open>out_of_range\<close> are the two exception classes the code throws
  (the message text is dropped). \<open>past_the_end\<close> stands for dereferencing an \<open>end()\<close>
  iterator, which the C++ standard leaves undefined. \<open>terminate_called\<close> is the end of
  the process in \<open>std::terminate\<close>: an exception left the body of an algorithm that was
  given an execution policy, and no caller gets to catch it.
\<close>

datatype error = invalid_argument | out_of_range | past_the_end | terminate_called

text \<open>
  Modelled from the spec: the document value type of \<open>document.h\<close>, which is not among the
  sources; it carries id, relevance and rating, built as \<open>Document(id, relevance, rating)\<close>.
\<close>

datatype Document = Document (doc_id: int) (relevance: real) (doc_rating: int32)

record DocumentData =
  rating :: int32
  status :: DocumentStatus
  data :: string
  word_to_freqs :: "(string \<times> real) list"

text \<open>\<open>struct QueryWord {data; is_minus; is_stop}\<close>\<close>

datatype QueryWord = QueryWord (word_data: string) (is_minus: bool) (is_stop: bool)

record Query =
  plus_words :: "string list"
  minus_words :: "string list"

record SearchServer =
  stop_words :: "string list"
  word_to_document_freqs :: "(string \<times> (int \<times> real) list) list"
  documents :: "(int \<times> DocumentData) list"
  document_ids :: "int list"

definition MAX_RESULT_DOCUMENT_COUNT :: nat where
  "MAX_RESULT_DOCUMENT_COUNT = 5"

section \<open>Ordered containers\<close>

text \<open>
  A \<open>std::map\<close> is an association list in ascending key order, a \<open>std::set\<close> an ascending
  list: iteration is a walk along the list. \<open>count(k) > 0\<close> is \<open>map_contains\<close>, \<open>at(k)\<close>
  throws \<open>out_of_range\<close> on a missing key, \<open>operator[]\<close> reads the default on a missing
  key (\<open>map_subscript\<close>) and the following store puts the entry in its ordered place
  (\<open>map_put\<close>).
\<close>

definition map_contains :: "('k \<times> 'v) list \<Rightarrow> 'k \<Rightarrow> bool" where
  "map_contains m k = (map_of m k \<noteq> None)"

definition map_at :: "('k \<times> 'v) list \<Rightarrow> 'k \<Rightarrow> error + 'v" where
  "map_at m k = (case map_of m k of None \<Rightarrow> Inl out_of_range | Some v \<Rightarrow> Inr v)"

definition map_subscript :: "('k \<times> 'v) list \<Rightarrow> 'k \<Rightarrow> 'v \<Rightarrow> 'v" where
  "map_subscript m k dflt = (case map_of m k of None \<Rightarrow> dflt | Some v \<Rightarrow> v)"

definition map_put :: "'k::linorder \<Rightarrow> 'v \<Rightarrow> ('k \<times> 'v) list \<Rightarrow> ('k \<times> 'v) list" where
  "map_put k v m =
     (if map_contains m k then map (\<lambda>(k', v'). if k' = k then (k', v) else (k', v')) m
      else insort_key fst (k, v) m)"

definition map_erase :: "'k \<Rightarrow> ('k \<times> 'v) list \<Rightarrow> ('k \<times> 'v) list" where
  "map_erase k m = filter (\<lambda>(k', v'). k' \<noteq> k) m"

definition set_insert :: "'k::linorder \<Rightarrow> 'k list \<Rightarrow> 'k list" where
  "set_insert k s = (if k \<in> set s then s else insort k s)"

definition set_erase :: "'k \<Rightarrow> 'k list \<Rightarrow> 'k list" where
  "set_erase k s = removeAll k s"

text \<open>
  \<open>std::for_each(policy, first, last, f)\<close> with the policy \<open>std::execution::seq\<close>, the only
  one modelled: the elements in order. The code always passes a policy, so this is the
  overload for execution policies: when the body throws, \<open>std::terminate\<close> is called.
\<close>

fun for_each :: "('a \<Rightarrow> 's \<Rightarrow> error + 's) \<Rightarrow> 'a list \<Rightarrow> 's \<Rightarrow> error + 's" where
  "for_each f [] s = Inr s"
| "for_each f (x # xs) s =
     (case f x s of Inl e \<Rightarrow> Inl terminate_called | Inr s' \<Rightarrow> for_each f xs s')"

text \<open>
  Modelled from the spec: the relevance accumulator \<open>ConcurrentMap<int, double>\<close> of
  \<open>concurrent_map.h\<close>, which is not among the sources. Under the sequential policy it is a
  map from document id to score: \<open>m[id].ref_to_value += delta\<close> inserts or increments,
  \<open>Erase\<close> removes the entry if present, \<open>BuildOrdinaryMap\<close> merges the buckets into one
  ordered map.
\<close>

definition AddToValue :: "int \<Rightarrow> real \<Rightarrow> (int \<times> real) list \<Rightarrow> (int \<times> real) list" where
  "AddToValue k delta m = map_put k (map_subscript m k 0 + delta) m"

definition Erase :: "int \<Rightarrow> (int \<times> real) list \<Rightarrow> (int \<times> real) list" where
  "Erase k m = map_erase k m"

definition BuildOrdinaryMap :: "(int \<times> real) list \<Rightarrow> (int \<times> real) list" where
  "BuildOrdinaryMap m = m"

section \<open>string\_processing\<close>

text \<open>\<open>text.find(' ')\<close>: the position of the first occurrence, \<open>None\<close> for \<open>npos\<close>.\<close>

fun find_char :: "char \<Rightarrow> string \<Rightarrow> nat option" where
  "find_char c [] = None"
| "find_char c (x # xs) = (if x = c then Some 0 else map_option Suc (find_char c xs))"

lemma find_char_less: "find_char c str = Some i \<Longrightarrow> i < length str"
  by (induction str arbitrary: i) (auto split: if_splits)

function SplitIntoWords :: "string \<Rightarrow> string list" where
  "SplitIntoWords text =
     (case find_char (CHR '' '') text of
        None \<Rightarrow> [text]
      | Some space \<Rightarrow> take space text # SplitIntoWords (drop (space + 1) text))"
  by pat_completeness auto
termination
  by (relation "measure length") (auto dest: find_char_less)

declare SplitIntoWords.simps [simp del]

definition MakeUniqueNonEmptyStrings :: "string list \<Rightarrow> string list" where
  "MakeUniqueNonEmptyStrings strings =
     fold (\<lambda>str non_empty_strings.
             if str \<noteq> [] then set_insert str non_empty_strings else non_empty_strings)
          strings []"

section \<open>SearchServer\<close>

text \<open>
  The value of a \<open>char\<close> as the comparison \<open>c >= '\0' && c < ' '\<close> sees it where \<open>char\<close>
  is signed; where it is unsigned the test selects the same bytes \<open>0..31\<close>.
\<close>

definition char_value :: "char \<Rightarrow> int" where
  "char_value c = (let n = of_char c in if n < 128 then n else n - 256)"

definition IsValidWord :: "string \<Rightarrow> bool" where
  "IsValidWord word = (\<not> list_ex (\<lambda>c. char_value c \<ge> 0 \<and> char_value c < 32) word)"

definition IsStopWord :: "string \<Rightarrow> SearchServer \<Rightarrow> bool" where
  "IsStopWord word s = (word \<in> set (stop_words s))"

text \<open>The constructor from a container of strings, and the one from a text.\<close>

definition SearchServer_from_container :: "string list \<Rightarrow> error + SearchServer" where
  "SearchServer_from_container stop_words_arg =
     (let sw = MakeUniqueNonEmptyStrings stop_words_arg
      in if \<not> list_all IsValidWord sw then Inl invalid_argument
         else Inr \<lparr>stop_words = sw, word_to_document_freqs = [], documents = [],
                   document_ids = []\<rparr>)"

definition SearchServer_from_text :: "string \<Rightarrow> error + SearchServer" where
  "SearchServer_from_text stop_words_text =
     SearchServer_from_container (SplitIntoWords stop_words_text)"

fun SplitIntoWordsNoStop_loop ::
  "SearchServer \<Rightarrow> string list \<Rightarrow> string list \<Rightarrow> error + string list" where
  "SplitIntoWordsNoStop_loop s [] words = Inr words"
| "SplitIntoWordsNoStop_loop s (word # rest) words =
     (if \<not> IsValidWord word then Inl invalid_argument
      else if \<not> IsStopWord word s then SplitIntoWordsNoStop_loop s rest (words @ [word])
      else SplitIntoWordsNoStop_loop s rest words)"

definition SplitIntoWordsNoStop :: "string \<Rightarrow> SearchServer \<Rightarrow> error + string list" where
  "SplitIntoWordsNoStop text s = SplitIntoWordsNoStop_loop s (SplitIntoWords text) []"

text \<open>
  \<open>rating_sum\<close> is an \<open>int\<close>: the sum wraps around at 32 bits. \<open>static_cast<int>\<close> keeps
  the low 32 bits of the size. \<open>/\<close> on \<open>int\<close> truncates towards zero (\<open>sdiv\<close>).
\<close>

definition int32_div :: "int32 \<Rightarrow> int32 \<Rightarrow> int32" where
  "int32_div a b = word_of_int (sint a sdiv sint b)"

definition ComputeAverageRating :: "int32 list \<Rightarrow> int32" where
  "ComputeAverageRating ratings =
     (if ratings = [] then 0
      else int32_div (fold (\<lambda>rating rating_sum. rating_sum + rating) ratings 0)
                     (word_of_nat (length ratings)))"

text \<open>\<open>word_to_document_freqs_[word][document_id] += inv_word_count\<close>\<close>

definition add_to_index ::
  "string \<Rightarrow> int \<Rightarrow> real \<Rightarrow> (string \<times> (int \<times> real) list) list
     \<Rightarrow> (string \<times> (int \<times> real) list) list" where
  "add_to_index word document_id inv_word_count idx =
     (let inner = map_subscript idx word []
      in map_put word
           (map_put document_id (map_subscript inner document_id 0 + inv_word_count) inner) idx)"

text \<open>\<open>word_to_freqs[word] += inv_word_count\<close>\<close>

definition add_to_freqs :: "string \<Rightarrow> real \<Rightarrow> (string \<times> real) list \<Rightarrow> (string \<times> real) list" where
  "add_to_freqs word inv_word_count freqs =
     map_put word (map_subscript freqs word 0 + inv_word_count) freqs"

text \<open>
  \<open>AddDocument\<close> returns the outcome together with the state the call leaves behind: the
  document is emplaced before the text is split, so the state after a throw is part of
  the result. \<open>1.0 / words.size()\<close> is used only when there is a word.
\<close>

definition AddDocument ::
  "int \<Rightarrow> string \<Rightarrow> DocumentStatus \<Rightarrow> int32 list \<Rightarrow> SearchServer
     \<Rightarrow> (error + unit) \<times> SearchServer" where
  "AddDocument document_id document status_arg ratings s =
     (if document_id < 0 \<or> map_contains (documents s) document_id
      then (Inl invalid_argument, s)
      else
        let doc = \<lparr>rating = ComputeAverageRating ratings, status = status_arg,
                   data = document, word_to_freqs = []\<rparr>;
            s1 = s\<lparr>documents := map_put document_id doc (documents s)\<rparr>
        in case SplitIntoWordsNoStop (data doc) s1 of
             Inl e \<Rightarrow> (Inl e, s1)
           | Inr words \<Rightarrow>
               let inv_word_count = 1 / real (length words);
                   idx = fold (\<lambda>word. add_to_index word document_id inv_word_count) words
                           (word_to_document_freqs s1);
                   freqs = fold (\<lambda>word. add_to_freqs word inv_word_count) words []
               in (Inr (),
                   s1\<lparr>word_to_document_freqs := idx,
                      documents := map_put document_id (doc\<lparr>word_to_freqs := freqs\<rparr>)
                                     (documents s1),
                      document_ids := set_insert document_id (document_ids s1)\<rparr>))"

text \<open>\<open>documents_.size()\<close> converted to \<open>int\<close>.\<close>

definition GetDocumentCount :: "SearchServer \<Rightarrow> int" where
  "GetDocumentCount s = sint (word_of_nat (length (documents s)) :: int32)"

definition GetWordFrequencies :: "int \<Rightarrow> SearchServer \<Rightarrow> (string \<times> real) list" where
  "GetWordFrequencies document_id s =
     (if map_contains (documents s) document_id
      then (case map_at (documents s) document_id of Inl e \<Rightarrow> [] | Inr d \<Rightarrow> word_to_freqs d)
      else [])"

text \<open>\<open>begin()\<close> .. \<open>end()\<close>: the registry in ascending order.\<close>

definition Ids :: "SearchServer \<Rightarrow> int list" where
  "Ids s = document_ids s"

text \<open>\<open>word_to_document_freqs_[word.first].erase(document_id)\<close>\<close>

definition erase_from_index ::
  "string \<Rightarrow> int \<Rightarrow> (string \<times> (int \<times> real) list) list \<Rightarrow> (string \<times> (int \<times> real) list) list" where
  "erase_from_index word document_id idx =
     map_put word (map_erase document_id (map_subscript idx word [])) idx"

text \<open>
  \<open>RemoveDocument\<close> erases the inner entries of the document and then the document. The
  body of its \<open>std::for_each\<close> throws nothing. The keys of \<open>word_to_document_freqs_\<close> stay
  (with an inner map that may be empty); those that view the text of the erased document
  view a destroyed text from then on, which \<open>track_operation\<close> records.
\<close>

definition RemoveDocument :: "int \<Rightarrow> SearchServer \<Rightarrow> (error + unit) \<times> SearchServer" where
  "RemoveDocument document_id s =
     (if \<not> map_contains (documents s) document_id then (Inr (), s)
      else case map_at (documents s) document_id of
             Inl e \<Rightarrow> (Inl e, s)
           | Inr d \<Rightarrow>
               (Inr (),
                s\<lparr>word_to_document_freqs :=
                     fold (\<lambda>word. erase_from_index (fst word) document_id) (word_to_freqs d)
                       (word_to_document_freqs s),
                   documents := map_erase document_id (documents s),
                   document_ids := set_erase document_id (document_ids s)\<rparr>))"

definition ParseQueryWord :: "string \<Rightarrow> SearchServer \<Rightarrow> error + QueryWord" where
  "ParseQueryWord word s =
     (if word = [] then Inl invalid_argument
      else
        let minus = (hd word = CHR ''-'');
            word' = (if minus then tl word else word)
        in if word' = [] \<or> hd word' = CHR ''-'' \<or> \<not> IsValidWord word'
           then Inl invalid_argument
           else Inr (QueryWord word' minus (IsStopWord word' s)))"

fun ParseQuery_loop :: "SearchServer \<Rightarrow> string list \<Rightarrow> Query \<Rightarrow> error + Query" where
  "ParseQuery_loop s [] result = Inr result"
| "ParseQuery_loop s (word # rest) result =
     (case ParseQueryWord word s of
        Inl e \<Rightarrow> Inl e
      | Inr query_word \<Rightarrow>
          ParseQuery_loop s rest
            (if \<not> is_stop query_word
             then (if is_minus query_word
                   then result\<lparr>minus_words := set_insert (word_data query_word) (minus_words result)\<rparr>
                   else result\<lparr>plus_words := set_insert (word_data query_word) (plus_words result)\<rparr>)
             else result))"

definition ParseQuery :: "string \<Rightarrow> SearchServer \<Rightarrow> error + Query" where
  "ParseQuery text s =
     ParseQuery_loop s (SplitIntoWords text) \<lparr>plus_words = [], minus_words = []\<rparr>"

text \<open>
  \<open>log(GetDocumentCount() * 1.0 / word_to_document_freqs_.at(word).size())\<close>. Where the
  inner map is empty the quotient is not a number the reals have; the value is then used
  by no caller, whose loop over the same empty map does not run.
\<close>

definition ComputeWordInverseDocumentFreq :: "string \<Rightarrow> SearchServer \<Rightarrow> error + real" where
  "ComputeWordInverseDocumentFreq word s =
     (case map_at (word_to_document_freqs s) word of
        Inl e \<Rightarrow> Inl e
      | Inr freqs \<Rightarrow> Inr (ln (real_of_int (GetDocumentCount s) * 1 / real (length freqs))))"

text \<open>The body of the inner loop over the documents of a plus-word.\<close>

definition accumulate_document ::
  "(int \<Rightarrow> DocumentStatus \<Rightarrow> int32 \<Rightarrow> bool) \<Rightarrow> real \<Rightarrow> SearchServer \<Rightarrow> int \<times> real
     \<Rightarrow> (int \<times> real) list \<Rightarrow> error + (int \<times> real) list" where
  "accumulate_document document_predicate inverse_document_freq s pair document_to_relevance =
     (case map_at (documents s) (fst pair) of
        Inl e \<Rightarrow> Inl e
      | Inr document_data \<Rightarrow>
          Inr (if document_predicate (fst pair) (status document_data) (rating document_data)
               then AddToValue (fst pair) (snd pair * inverse_document_freq) document_to_relevance
               else document_to_relevance))"

text \<open>The body of the loop over the plus-words.\<close>

definition accumulate_plus_word ::
  "(int \<Rightarrow> DocumentStatus \<Rightarrow> int32 \<Rightarrow> bool) \<Rightarrow> SearchServer \<Rightarrow> string
     \<Rightarrow> (int \<times> real) list \<Rightarrow> error + (int \<times> real) list" where
  "accumulate_plus_word document_predicate s word document_to_relevance =
     (if map_contains (word_to_document_freqs s) word
      then case ComputeWordInverseDocumentFreq word s of
             Inl e \<Rightarrow> Inl e
           | Inr inverse_document_freq \<Rightarrow>
               (case map_at (word_to_document_freqs s) word of
                  Inl e \<Rightarrow> Inl e
                | Inr freqs \<Rightarrow>
                    for_each (accumulate_document document_predicate inverse_document_freq s)
                      freqs document_to_relevance)
      else Inr document_to_relevance)"

text \<open>The body of the loop over the minus-words.\<close>

definition erase_minus_word ::
  "SearchServer \<Rightarrow> string \<Rightarrow> (int \<times> real) list \<Rightarrow> error + (int \<times> real) list" where
  "erase_minus_word s word document_to_relevance =
     (if map_contains (word_to_document_freqs s) word
      then case map_at (word_to_document_freqs s) word of
             Inl e \<Rightarrow> Inl e
           | Inr freqs \<Rightarrow> for_each (\<lambda>pair m. Inr (Erase (fst pair) m)) freqs document_to_relevance
      else Inr document_to_relevance)"

text \<open>
  The last loop, a \<open>std::for_each\<close> with the policy as well: one \<open>Document\<close> per entry of
  the ordinary map, in its order.
\<close>

fun build_documents :: "SearchServer \<Rightarrow> (int \<times> real) list \<Rightarrow> error + Document list" where
  "build_documents s [] = Inr []"
| "build_documents s (pair # rest) =
     (case map_at (documents s) (fst pair) of
        Inl e \<Rightarrow> Inl terminate_called
      | Inr d \<Rightarrow>
          (case build_documents s rest of
             Inl e \<Rightarrow> Inl e
           | Inr ds \<Rightarrow> Inr (Document (fst pair) (snd pair) (rating d) # ds)))"

definition FindAllDocuments ::
  "Query \<Rightarrow> (int \<Rightarrow> DocumentStatus \<Rightarrow> int32 \<Rightarrow> bool) \<Rightarrow> SearchServer \<Rightarrow> error + Document list" where
  "FindAllDocuments query document_predicate s =
     (case for_each (accumulate_plus_word document_predicate s) (plus_words query) [] of
        Inl e \<Rightarrow> Inl e
      | Inr m1 \<Rightarrow>
          (case for_each (erase_minus_word s) (minus_words query) m1 of
             Inl e \<Rightarrow> Inl e
           | Inr m2 \<Rightarrow> build_documents s (BuildOrdinaryMap m2)))"

text \<open>
  The comparator handed to \<open>std::sort\<close>: \<open>lhs\<close> goes before \<open>rhs\<close>.
\<close>

definition document_less :: "Document \<Rightarrow> Document \<Rightarrow> bool" where
  "document_less lhs rhs =
     ((\<bar>relevance lhs - relevance rhs\<bar> < 1 / 10 ^ 6
        \<and> sint (doc_rating lhs) > sint (doc_rating rhs))
      \<or> relevance lhs > relevance rhs)"

text \<open>
  \<open>std::sort\<close> is the standard library's. It is modelled as the linear insertion sort that
  libstdc++ runs on a range of at most 16 elements: each element in turn goes to the front
  when the comparator puts it before the first one, and otherwise moves back past
  every element the comparator puts it before. \<open>linear_insert\<close> walks the sorted prefix
  from its end, so it works on the reversed prefix. On a longer range libstdc++ partitions
  around pivots first, and elements the comparator does not order can come out in another
  order than here: \<open>std_sort\<close> is the code's order for at most 16 matched documents, and
  for more it is used only as a permutation of them.
\<close>

fun linear_insert :: "('a \<Rightarrow> 'a \<Rightarrow> bool) \<Rightarrow> 'a \<Rightarrow> 'a list \<Rightarrow> 'a list" where
  "linear_insert before val [] = [val]"
| "linear_insert before val (p # ps) =
     (if before val p then p # linear_insert before val ps else val # p # ps)"

definition insertion_step :: "('a \<Rightarrow> 'a \<Rightarrow> bool) \<Rightarrow> 'a \<Rightarrow> 'a list \<Rightarrow> 'a list" where
  "insertion_step before val sorted_prefix =
     (if sorted_prefix \<noteq> [] \<and> before val (hd sorted_prefix) then val # sorted_prefix
      else rev (linear_insert before val (rev sorted_prefix)))"

definition std_sort :: "('a \<Rightarrow> 'a \<Rightarrow> bool) \<Rightarrow> 'a list \<Rightarrow> 'a list" where
  "std_sort before xs = fold (insertion_step before) xs []"

definition FindTopDocuments ::
  "string \<Rightarrow> (int \<Rightarrow> DocumentStatus \<Rightarrow> int32 \<Rightarrow> bool) \<Rightarrow> SearchServer \<Rightarrow> error + Document list" where
  "FindTopDocuments raw_query document_predicate s =
     (case ParseQuery raw_query s of
        Inl e \<Rightarrow> Inl e
      | Inr query \<Rightarrow>
          (case FindAllDocuments query document_predicate s of
             Inl e \<Rightarrow> Inl e
           | Inr matched_documents \<Rightarrow>
               let sorted_documents = std_sort document_less matched_documents
               in Inr (if length sorted_documents > MAX_RESULT_DOCUMENT_COUNT
                       then take MAX_RESULT_DOCUMENT_COUNT sorted_documents
                       else sorted_documents)))"

definition FindTopDocuments_status ::
  "string \<Rightarrow> DocumentStatus \<Rightarrow> SearchServer \<Rightarrow> error + Document list" where
  "FindTopDocuments_status raw_query status_arg s =
     FindTopDocuments raw_query (\<lambda>_ document_status _. document_status = status_arg) s"

definition FindTopDocuments_default :: "string \<Rightarrow> SearchServer \<Rightarrow> error + Document list" where
  "FindTopDocuments_default raw_query s = FindTopDocuments_status raw_query ACTUAL s"

text \<open>The bodies of the two loops of \<open>MatchDocument\<close>.\<close>

definition match_plus_word ::
  "SearchServer \<Rightarrow> int \<Rightarrow> string \<Rightarrow> string list \<Rightarrow> error + string list" where
  "match_plus_word s document_id word matched_words =
     (case map_at (word_to_document_freqs s) word of
        Inl e \<Rightarrow> Inl e
      | Inr freqs \<Rightarrow>
          if map_contains freqs document_id
          then (case map_at (documents s) document_id of
                  Inl e \<Rightarrow> Inl e
                | Inr d \<Rightarrow>
                    (case map_of (word_to_freqs d) word of
                       None \<Rightarrow> Inl past_the_end
                     | Some f \<Rightarrow> Inr (matched_words @ [word])))
          else Inr matched_words)"

definition match_minus_word ::
  "SearchServer \<Rightarrow> int \<Rightarrow> string \<Rightarrow> string list \<Rightarrow> error + string list" where
  "match_minus_word s document_id word matched_words =
     (case map_at (word_to_document_freqs s) word of
        Inl e \<Rightarrow> Inl e
      | Inr freqs \<Rightarrow> Inr (if map_contains freqs document_id then [] else matched_words))"

definition MatchDocument ::
  "string \<Rightarrow> int \<Rightarrow> SearchServer \<Rightarrow> error + (string list \<times> DocumentStatus)" where
  "MatchDocument raw_query document_id s =
     (case ParseQuery raw_query s of
        Inl e \<Rightarrow> Inl e
      | Inr query \<Rightarrow>
          if document_id \<notin> set (document_ids s) then Inl out_of_range
          else
            (case for_each (match_plus_word s document_id) (plus_words query) [] of
               Inl e \<Rightarrow> Inl e
             | Inr matched1 \<Rightarrow>
                 (case for_each (match_minus_word s document_id) (minus_words query) matched1 of
                    Inl e \<Rightarrow> Inl e
                  | Inr matched_words \<Rightarrow>
                      (case map_at (documents s) document_id of
                         Inl e \<Rightarrow> Inl e
                       | Inr d \<Rightarrow> Inr (matched_words, status d)))))"

section \<open>Notions the claims are stated with\<close>

text \<open>The server constructed with no stop words.\<close>

definition empty_server :: SearchServer where
  "empty_server =
     \<lparr>stop_words = [], word_to_document_freqs = [], documents = [], document_ids = []\<rparr>"

text \<open>
  A history of the engine: calls of \<open>AddDocument\<close> and \<open>RemoveDocument\<close> in sequence. A
  call of \<open>AddDocument\<close> that throws is part of a history: the caller catches the
  exception and goes on with the state the call left.
\<close>

datatype operation = Add int string DocumentStatus "int32 list" | Remove int

fun apply_operation :: "operation \<Rightarrow> SearchServer \<Rightarrow> SearchServer" where
  "apply_operation (Add document_id document status_arg ratings) s =
     snd (AddDocument document_id document status_arg ratings s)"
| "apply_operation (Remove document_id) s = snd (RemoveDocument document_id s)"

definition run :: "operation list \<Rightarrow> SearchServer \<Rightarrow> SearchServer" where
  "run ops s = fold apply_operation ops s"

text \<open>
  The inverted index has an entry for the word and the document:
  \<open>word_to_document_freqs_\<close> has the word, and the inner map under it has the id.
\<close>

definition index_entry :: "SearchServer \<Rightarrow> string \<Rightarrow> int \<Rightarrow> bool" where
  "index_entry s word document_id =
     (case map_of (word_to_document_freqs s) word of
        None \<Rightarrow> False
      | Some freqs \<Rightarrow> map_contains freqs document_id)"

text \<open>
  The running sum of the ratings, started at \<open>acc\<close>, stays in the range of a 32-bit
  \<open>int\<close> after every addition.
\<close>

fun sums_in_range :: "int \<Rightarrow> int32 list \<Rightarrow> bool" where
  "sums_in_range acc [] = True"
| "sums_in_range acc (r # rs) =
     (- (2 ^ 31) \<le> acc + sint r \<and> acc + sint r < 2 ^ 31 \<and> sums_in_range (acc + sint r) rs)"

text \<open>
  A query word as the claims describe a malformed one: after one leading minus sign is
  stripped, it is empty, starts with another minus sign, or has a control character (a
  code point below the space character).
\<close>

definition strip_minus :: "string \<Rightarrow> string" where
  "strip_minus w = (if w \<noteq> [] \<and> hd w = CHR ''-'' then tl w else w)"

definition has_control_character :: "string \<Rightarrow> bool" where
  "has_control_character w = list_ex (\<lambda>c. of_char c < (32::nat)) w"

definition malformed_query_word :: "string \<Rightarrow> bool" where
  "malformed_query_word w =
     (strip_minus w = [] \<or> hd (strip_minus w) = CHR ''-'' \<or> has_control_character (strip_minus w))"


text \<open>
  The order the claims give the results: of two neighbours, the first has the higher
  relevance, and where the relevances differ by less than \<open>1e-6\<close> the first has a
  rating no lower.
\<close>

definition claimed_order :: "Document \<Rightarrow> Document \<Rightarrow> bool" where
  "claimed_order x y =
     (if \<bar>relevance x - relevance y\<bar> < 1 / 10 ^ 6 then sint (doc_rating y) \<le> sint (doc_rating x)
      else relevance y < relevance x)"

text \<open>
  The frequency the inverted index holds for a word and a document, if any.
\<close>

definition index_lookup :: "(string \<times> (int \<times> real) list) list \<Rightarrow> string \<Rightarrow> int \<Rightarrow> real option" where
  "index_lookup idx word document_id =
     (case map_of idx word of None \<Rightarrow> None | Some freqs \<Rightarrow> map_of freqs document_id)"

text \<open>
  What every history keeps true: the inverted index and the stored frequency mappings
  hold the same frequencies; a registered id has a stored document; an id outside the
  registry has no frequencies; the empty string is no stop word; and the frequency
  mapping of a registered document gives each of its non-stop words its number of
  occurrences divided by the number of non-stop words.
\<close>

definition server_invariant :: "SearchServer \<Rightarrow> bool" where
  "server_invariant s \<longleftrightarrow>
     (\<forall>w i. index_lookup (word_to_document_freqs s) w i = map_of (GetWordFrequencies i s) w)
   \<and> set (document_ids s) \<subseteq> fst ` set (documents s)
   \<and> (\<forall>i. i \<notin> set (document_ids s) \<longrightarrow> GetWordFrequencies i s = [])
   \<and> [] \<notin> set (stop_words s)
   \<and> (\<forall>i \<in> set (document_ids s). \<exists>d words.
          map_of (documents s) i = Some d
        \<and> SplitIntoWordsNoStop (data d) s = Inr words
        \<and> (\<forall>w. map_of (word_to_freqs d) w =
                 (if w \<in> set words
                  then Some (real (count_list words w) / real (length words)) else None)))"

text \<open>
  A document of \<open>n + 1\<close> words: "w" followed by \<open>n\<close> times " a".
\<close>

definition long_document :: "nat \<Rightarrow> string" where
  "long_document n = ''w'' @ concat (replicate n '' a'')"

text \<open>
  The server on which the order of \<open>FindTopDocuments\<close> is examined, as the calls that
  build it and as the state they leave.
\<close>

definition tie_break_server :: SearchServer where
  "tie_break_server =
     run [Add 0 (long_document 707) ACTUAL [5], Add 1 (long_document 706) ACTUAL [1],
          Add 2 ''b'' ACTUAL []] empty_server"

definition tie_break_state :: SearchServer where
  "tie_break_state =
     \<lparr>stop_words = [],
        word_to_document_freqs =
          [(''a'', [(0, 707 / 708), (1, 706 / 707)]), (''b'', [(2, 1)]),
           (''w'', [(0, 1 / 708), (1, 1 / 707)])],
        documents =
          [(0, \<lparr>rating = 5, status = ACTUAL, data = long_document 707,
                 word_to_freqs = [(''a'', 707 / 708), (''w'', 1 / 708)]\<rparr>),
           (1, \<lparr>rating = 1, status = ACTUAL, data = long_document 706,
                 word_to_freqs = [(''a'', 706 / 707), (''w'', 1 / 707)]\<rparr>),
           (2, \<lparr>rating = 0, status = ACTUAL, data = ''b'',
                 word_to_freqs = [(''b'', 1)]\<rparr>)],
        document_ids = [0, 1, 2]\<rparr>"

text \<open>
  The lifetime of the index keys. A key of \<open>word_to_document_freqs_\<close> is a \<open>string_view\<close>:
  \<open>AddDocument\<close> inserts it (line 25, \<open>word_to_document_freqs_[word]\<close>) when no equal key
  is there, as a view into the text stored for the document being added. No code erases
  a key. \<open>RemoveDocument\<close> erases the document (\<open>documents_.erase\<close>), which destroys its
  text: the keys that view it are dangling from then on, and reading one is undefined.
  A \<open>key_view\<close> is a key with the word it was inserted for, the id of the document whose
  text it views, and whether that text has been destroyed.
\<close>

datatype key_view = KeyView (viewed_word: string) (text_owner: int) (text_freed: bool)

text \<open>The keys the index has after a call and had not before it.\<close>

definition new_keys :: "SearchServer \<Rightarrow> SearchServer \<Rightarrow> string list" where
  "new_keys s s' =
     filter (\<lambda>w. \<not> map_contains (word_to_document_freqs s) w)
       (map fst (word_to_document_freqs s'))"

text \<open>
  A call with the views of the keys: new keys view the text of the document of the
  call, and the removal of a stored document frees the text its keys view. This
  follows the code up to the first lookup that reads a freed text.
\<close>

fun track_operation ::
  "operation \<Rightarrow> SearchServer \<times> key_view list \<Rightarrow> SearchServer \<times> key_view list" where
  "track_operation (Add document_id document status_arg ratings) (s, views) =
     (let s' = snd (AddDocument document_id document status_arg ratings s)
      in (s', views @ map (\<lambda>w. KeyView w document_id False) (new_keys s s')))"
| "track_operation (Remove document_id) (s, views) =
     (let s' = snd (RemoveDocument document_id s);
          views' = views @ map (\<lambda>w. KeyView w document_id False) (new_keys s s')
      in (s',
          if map_contains (documents s) document_id
          then map (\<lambda>v. if text_owner v = document_id
                          then KeyView (viewed_word v) (text_owner v) True else v) views'
          else views'))"

definition track :: "operation list \<Rightarrow> SearchServer \<Rightarrow> SearchServer \<times> key_view list" where
  "track ops s = fold track_operation ops (s, [])"

text \<open>
  The index has one key, and the text it views has been freed. A lookup in a
  \<open>std::map\<close> of one key compares the word looked up with that key, so every lookup in
  such an index reads freed text.
\<close>

definition sole_key_freed :: "key_view list \<Rightarrow> bool" where
  "sole_key_freed views = (case views of [v] \<Rightarrow> text_freed v | _ \<Rightarrow> False)"

text \<open>
  The call looks a word up in the index: \<open>AddDocument\<close> when it is not refused and its
  text is valid and has a word that is no stop word (line 25); a query when it parses and
  has a plus-term or a minus-term (\<open>FindAllDocuments\<close> calls
  \<open>word_to_document_freqs_.count(word)\<close> for each).
\<close>

definition AddDocument_looks_up :: "int \<Rightarrow> string \<Rightarrow> SearchServer \<Rightarrow> bool" where
  "AddDocument_looks_up document_id document s =
     (\<not> (document_id < 0 \<or> map_contains (documents s) document_id)
      \<and> (case SplitIntoWordsNoStop document s of Inl e \<Rightarrow> False | Inr words \<Rightarrow> words \<noteq> []))"

definition query_looks_up :: "string \<Rightarrow> SearchServer \<Rightarrow> bool" where
  "query_looks_up raw_query s =
     (case ParseQuery raw_query s of
        Inl e \<Rightarrow> False
      | Inr query \<Rightarrow> \<not> (plus_words query = [] \<and> minus_words query = []))"

section \<open>Running the model on concrete inputs\<close>

text \<open>The equations that unfold the model on a concrete input.\<close>

lemmas model_defs =
  SearchServer_from_container_def SearchServer_from_text_def MakeUniqueNonEmptyStrings_def
  AddDocument_def SplitIntoWordsNoStop_def IsValidWord_def IsStopWord_def char_value_def
  ComputeAverageRating_def int32_div_def add_to_index_def add_to_freqs_def
  map_contains_def map_at_def map_put_def map_erase_def map_subscript_def
  set_insert_def set_erase_def GetDocumentCount_def GetWordFrequencies_def Ids_def
  RemoveDocument_def erase_from_index_def ParseQuery_def ParseQueryWord_def
  ComputeWordInverseDocumentFreq_def accumulate_document_def accumulate_plus_word_def
  erase_minus_word_def FindAllDocuments_def AddToValue_def Erase_def BuildOrdinaryMap_def
  document_less_def insertion_step_def std_sort_def FindTopDocuments_def
  FindTopDocuments_status_def FindTopDocuments_default_def match_plus_word_def
  match_minus_word_def MatchDocument_def MAX_RESULT_DOCUMENT_COUNT_def
  SplitIntoWords.simps signed_divide_int_def Let_def


section \<open>AddDocument: the state after a failing call\<close>

text \<open>
  C1. \<open>AddDocument\<close> is claimed to leave the engine unchanged on every failing call. The
  code emplaces the document into \<open>documents_\<close> before it splits and validates the text:
  on the server constructed with no stop words, \<open>AddDocument(1, "a\x01", ACTUAL, {})\<close>
  throws \<open>invalid_argument\<close> for the control character, and leaves document 1 in the
  store with an empty frequency mapping, outside the registry and the inverted index:
  \<open>GetDocumentCount()\<close> goes from 0 to 1, and adding id 1 again is refused as a duplicate.
\<close>

theorem AddDocument_invalid_word_mutates:
  "GetDocumentCount empty_server = 0
   \<and> fst (AddDocument 1 [CHR ''a'', CHR 0x01] ACTUAL [] empty_server) = Inl invalid_argument
   \<and> snd (AddDocument 1 [CHR ''a'', CHR 0x01] ACTUAL [] empty_server) \<noteq> empty_server
   \<and> documents (snd (AddDocument 1 [CHR ''a'', CHR 0x01] ACTUAL [] empty_server))
       = [(1, \<lparr>rating = 0, status = ACTUAL, data = [CHR ''a'', CHR 0x01], word_to_freqs = []\<rparr>)]
   \<and> GetDocumentCount (snd (AddDocument 1 [CHR ''a'', CHR 0x01] ACTUAL [] empty_server)) = 1
   \<and> Ids (snd (AddDocument 1 [CHR ''a'', CHR 0x01] ACTUAL [] empty_server)) = []
   \<and> fst (AddDocument 1 ''a'' ACTUAL []
            (snd (AddDocument 1 [CHR ''a'', CHR 0x01] ACTUAL [] empty_server)))
       = Inl invalid_argument"
  by (simp add: model_defs empty_server_def)

section \<open>MatchDocument on a word the index does not know\<close>

text \<open>
  C2. \<open>MatchDocument\<close> is claimed to succeed for every registered id and every valid
  query, also when a query word occurs in no indexed document. The code looks each
  plus-word and each minus-word up with \<open>word_to_document_freqs_.at(word)\<close>, with no
  \<open>count(word) > 0\<close> test before it (\<open>FindAllDocuments\<close> has that test): with document 0
  = "cat" registered, the valid queries "dog" and "cat -dog" make \<open>at\<close> throw
  \<open>out_of_range\<close> inside the body of a \<open>std::for_each\<close> that was given the policy, which
  ends the process in \<open>std::terminate\<close>, while "cat" alone is matched.
\<close>

theorem MatchDocument_unknown_word_throws:
  "fst (AddDocument 0 ''cat'' ACTUAL [1] empty_server) = Inr ()
   \<and> Ids (snd (AddDocument 0 ''cat'' ACTUAL [1] empty_server)) = [0]
   \<and> ParseQuery ''dog'' (snd (AddDocument 0 ''cat'' ACTUAL [1] empty_server))
       = Inr \<lparr>plus_words = [''dog''], minus_words = []\<rparr>
   \<and> match_plus_word (snd (AddDocument 0 ''cat'' ACTUAL [1] empty_server)) 0 ''dog'' []
       = Inl out_of_range
   \<and> MatchDocument ''dog'' 0 (snd (AddDocument 0 ''cat'' ACTUAL [1] empty_server))
       = Inl terminate_called
   \<and> ParseQuery ''cat -dog'' (snd (AddDocument 0 ''cat'' ACTUAL [1] empty_server))
       = Inr \<lparr>plus_words = [''cat''], minus_words = [''dog'']\<rparr>
   \<and> MatchDocument ''cat -dog'' 0 (snd (AddDocument 0 ''cat'' ACTUAL [1] empty_server))
       = Inl terminate_called
   \<and> MatchDocument ''cat'' 0 (snd (AddDocument 0 ''cat'' ACTUAL [1] empty_server))
       = Inr ([''cat''], ACTUAL)
   \<and> FindTopDocuments_default ''dog'' (snd (AddDocument 0 ''cat'' ACTUAL [1] empty_server))
       = Inr []"
  by (simp add: model_defs empty_server_def)

section \<open>Facts about the ordered containers\<close>

lemma map_contains_iff: "map_contains m k \<longleftrightarrow> k \<in> fst ` set m"
  by (simp add: map_contains_def map_of_eq_None_iff)

lemma map_of_replace_same:
  "map_of (map (\<lambda>(k', v'). if k' = k then (k', v) else (k', v')) m) k =
     (if k \<in> fst ` set m then Some v else None)"
  by (induction m) (simp_all add: case_prod_beta)

lemma map_of_replace_other:
  "k' \<noteq> k \<Longrightarrow>
     map_of (map (\<lambda>(k', v'). if k' = k then (k', v) else (k', v')) m) k' = map_of m k'"
  by (induction m) (simp_all add: case_prod_beta)

lemma map_of_replace:
  "map_of (map (\<lambda>(k', v'). if k' = k then (k', v) else (k', v')) m) k' =
     (if k' = k \<and> k \<in> fst ` set m then Some v else map_of m k')"
  by (cases "k' = k")
     (auto simp: map_of_replace_same map_of_replace_other map_of_eq_None_iff [THEN iffD2, symmetric])

lemma map_of_insort_key:
  "k \<notin> fst ` set m \<Longrightarrow> map_of (insort_key fst (k, v) m) = (map_of m)(k \<mapsto> v)"
  by (induction m) (auto simp: fun_upd_twist)

lemma map_of_map_put: "map_of (map_put k v m) = (map_of m)(k \<mapsto> v)"
  by (rule ext) (auto simp: map_put_def map_contains_iff map_of_replace map_of_insort_key)

lemma keys_map_put: "fst ` set (map_put k v m) = insert k (fst ` set m)"
proof -
  have "dom (map_of (map_put k v m)) = insert k (dom (map_of m))"
    by (simp add: map_of_map_put)
  then show ?thesis by (simp add: dom_map_of_conv_image_fst)
qed

lemma map_of_map_erase: "map_of (map_erase k m) = (map_of m)(k := None)"
  by (induction m) (auto simp: map_erase_def)

lemma keys_map_erase: "fst ` set (map_erase k m) = fst ` set m - {k}"
  by (auto simp: map_erase_def image_iff)

lemma set_set_insert: "set (set_insert k s) = insert k (set s)"
  by (auto simp: set_insert_def set_insort_key)

lemma set_set_erase: "set (set_erase k s) = set s - {k}"
  by (auto simp: set_erase_def)

lemma map_at_eq: "map_at m k = Inr v \<longleftrightarrow> map_of m k = Some v"
  by (simp add: map_at_def split: option.splits)

lemma map_at_Inl: "map_at m k = Inl e \<longleftrightarrow> (e = out_of_range \<and> map_of m k = None)"
  by (auto simp add: map_at_def split: option.splits)

section \<open>RemoveDocument never fails\<close>



section \<open>The average rating\<close>

lemma sint_add_in_range:
  fixes a r :: int32
  assumes "- (2 ^ 31) \<le> sint a + sint r" "sint a + sint r < 2 ^ 31"
  shows "sint (a + r) = sint a + sint r"
  using assms by (simp add: sint_word_ariths signed_take_bit_int_eq_self)

lemma fold_sum_in_range:
  "sums_in_range (sint a) rs \<Longrightarrow>
     sint (fold (\<lambda>rating rating_sum. rating_sum + rating) rs a) = sint a + sum_list (map sint rs)"
proof (induction rs arbitrary: a)
  case Nil
  show ?case by simp
next
  case (Cons r rs)
  from Cons.prems have eq: "sint (a + r) = sint a + sint r"
    by (simp add: sint_add_in_range)
  from Cons.prems have "sums_in_range (sint (a + r)) rs" by (simp add: eq)
  from Cons.IH [OF this] show ?case by (simp add: eq)
qed

lemma sums_in_range_total:
  "sums_in_range acc rs \<Longrightarrow> rs \<noteq> [] \<Longrightarrow>
     - (2 ^ 31) \<le> acc + sum_list (map sint rs) \<and> acc + sum_list (map sint rs) < 2 ^ 31"
proof (induction rs arbitrary: acc)
  case Nil
  then show ?case by simp
next
  case (Cons r rs)
  show ?case
  proof (cases "rs = []")
    case True
    with Cons.prems show ?thesis by simp
  next
    case False
    from Cons.prems have "sums_in_range (acc + sint r) rs" by simp
    from Cons.IH [OF this False] show ?thesis by (simp add: add.assoc)
  qed
qed

lemma sdiv_pos_bounds:
  fixes k l :: int
  assumes "0 < l"
  shows "min 0 k \<le> k sdiv l \<and> k sdiv l \<le> max 0 k"
proof (cases "0 \<le> k")
  case True
  then have "k sdiv l = k div l"
    using assms by (cases "k = 0") (simp_all add: signed_divide_int_def)
  moreover have "0 \<le> k div l" using True assms by (simp add: pos_imp_zdiv_nonneg_iff)
  moreover have "k div l \<le> k"
    using True assms by (cases "k = 0") (simp_all add: int_div_le_self)
  ultimately show ?thesis using True by simp
next
  case False
  then have "k sdiv l = - ((- k) div l)"
    using assms by (simp add: signed_divide_int_def)
  moreover have "0 \<le> (- k) div l" using False assms by (simp add: pos_imp_zdiv_nonneg_iff)
  moreover have "(- k) div l \<le> - k"
    using False assms by (intro int_div_le_self) simp
  ultimately show ?thesis using False by simp
qed

lemma sint_length:
  "n < 2 ^ 31 \<Longrightarrow> sint (word_of_nat n :: int32) = int n"
  by (simp add: signed_of_nat signed_take_bit_int_eq_self)

lemma ComputeAverageRating_mean:
  assumes "sums_in_range 0 ratings" "length ratings < 2 ^ 31"
  shows "sint (ComputeAverageRating ratings) = sum_list (map sint ratings) sdiv int (length ratings)"
proof (cases "ratings = []")
  case True
  then show ?thesis by (simp add: ComputeAverageRating_def)
next
  case False
  let ?sum = "sum_list (map sint ratings)"
  have s: "sint (fold (\<lambda>rating rating_sum. rating_sum + rating) ratings (0::int32)) = ?sum"
    using fold_sum_in_range [of 0 ratings] assms(1) by simp
  have r: "- (2 ^ 31) \<le> ?sum" "?sum < 2 ^ 31"
    using sums_in_range_total [OF assms(1) False] by simp_all
  have q: "min 0 ?sum \<le> ?sum sdiv int (length ratings)
      \<and> ?sum sdiv int (length ratings) \<le> max 0 ?sum"
    using False by (intro sdiv_pos_bounds) simp
  have "- (2 ^ 31) \<le> ?sum sdiv int (length ratings)" "?sum sdiv int (length ratings) < 2 ^ 31"
    using r q by linarith+
  then have "sint (word_of_int (?sum sdiv int (length ratings)) :: int32)
      = ?sum sdiv int (length ratings)"
    by (simp add: signed_of_int signed_take_bit_int_eq_self)
  moreover have "sint (word_of_nat (length ratings) :: int32) = int (length ratings)"
    using assms(2) by (rule sint_length)
  ultimately show ?thesis
    using False by (simp add: ComputeAverageRating_def int32_div_def s)
qed

section \<open>The three outcomes of AddDocument\<close>

lemma SplitIntoWordsNoStop_loop_documents:
  "SplitIntoWordsNoStop_loop (s\<lparr>documents := d\<rparr>) ws acc = SplitIntoWordsNoStop_loop s ws acc"
  by (induction ws arbitrary: acc) (simp_all add: IsStopWord_def)

lemma SplitIntoWordsNoStop_documents:
  "SplitIntoWordsNoStop t (s\<lparr>documents := d\<rparr>) = SplitIntoWordsNoStop t s"
  by (simp add: SplitIntoWordsNoStop_def SplitIntoWordsNoStop_loop_documents)

lemma AddDocument_refused:
  "document_id < 0 \<or> map_contains (documents s) document_id \<Longrightarrow>
     AddDocument document_id document st ratings s = (Inl invalid_argument, s)"
  by (simp add: AddDocument_def)

lemma AddDocument_invalid:
  assumes "\<not> (document_id < 0 \<or> map_contains (documents s) document_id)"
    and "SplitIntoWordsNoStop document s = Inl e"
  shows "AddDocument document_id document st ratings s =
     (Inl e, s\<lparr>documents := map_put document_id
        \<lparr>rating = ComputeAverageRating ratings, status = st, data = document,
           word_to_freqs = []\<rparr> (documents s)\<rparr>)"
proof -
  show ?thesis using assms by (simp add: AddDocument_def Let_def SplitIntoWordsNoStop_documents)
qed

lemma AddDocument_added:
  assumes "\<not> (document_id < 0 \<or> map_contains (documents s) document_id)"
    and "SplitIntoWordsNoStop document s = Inr words"
  shows "AddDocument document_id document st ratings s =
     (Inr (),
      s\<lparr>word_to_document_freqs :=
           fold (\<lambda>word. add_to_index word document_id (1 / real (length words))) words
             (word_to_document_freqs s),
         documents :=
           map_put document_id
             \<lparr>rating = ComputeAverageRating ratings, status = st, data = document,
                word_to_freqs = fold (\<lambda>word. add_to_freqs word (1 / real (length words))) words []\<rparr>
             (map_put document_id
                \<lparr>rating = ComputeAverageRating ratings, status = st, data = document,
                   word_to_freqs = []\<rparr> (documents s)),
         document_ids := set_insert document_id (document_ids s)\<rparr>)"
proof -
  show ?thesis using assms by (simp add: AddDocument_def Let_def SplitIntoWordsNoStop_documents)
qed


lemma AddDocument_success:
  assumes "fst (AddDocument document_id document st ratings s) = Inr ()"
  obtains words where "\<not> (document_id < 0 \<or> map_contains (documents s) document_id)"
    and "SplitIntoWordsNoStop document s = Inr words"
proof (cases "document_id < 0 \<or> map_contains (documents s) document_id")
  case True
  with assms show ?thesis by (simp add: AddDocument_refused)
next
  case False
  show ?thesis
  proof (cases "SplitIntoWordsNoStop document s")
    case (Inl e)
    with False assms show ?thesis by (simp add: AddDocument_invalid)
  next
    case (Inr words)
    with False show ?thesis by (intro that)
  qed
qed

text \<open>
  C8. The stored rating is claimed to be the arithmetic mean of the ratings truncated
  towards zero for every ratings sequence. \<open>ComputeAverageRating\<close> adds the ratings up in
  an \<open>int\<close>, so the claim holds as amended: when the running sum stays within the 32-bit
  range after every addition and there are fewer than \<open>2^31\<close> ratings, the rating stored
  by a successful \<open>AddDocument\<close> is the sum divided by the count, truncated towards zero
  (\<open>sdiv\<close>), and 0 for no ratings; the ratings \<open>[1, 2, 3]\<close> give 2. Where the sum leaves
  the range the stored rating is not the mean: the ratings \<open>[2147483647, 1]\<close> have the
  mean 1073741824 and are stored as -1073741824.
\<close>

theorem stored_rating_is_truncated_mean:
  assumes "fst (AddDocument document_id document st ratings s) = Inr ()"
    and "sums_in_range 0 ratings" and "length ratings < 2 ^ 31"
  shows "\<exists>d. map_of (documents (snd (AddDocument document_id document st ratings s))) document_id
            = Some d
          \<and> rating d = ComputeAverageRating ratings
          \<and> sint (rating d) =
              (if ratings = [] then 0
               else sum_list (map sint ratings) sdiv int (length ratings))"
proof -
  obtain words where a: "\<not> (document_id < 0 \<or> map_contains (documents s) document_id)"
    and w: "SplitIntoWordsNoStop document s = Inr words"
    using assms(1) by (rule AddDocument_success)
  have "sint (ComputeAverageRating ratings) =
      (if ratings = [] then 0 else sum_list (map sint ratings) sdiv int (length ratings))"
    using ComputeAverageRating_mean [OF assms(2,3)] by simp
  then show ?thesis
    by (simp add: AddDocument_added [OF a w] map_of_map_put)
qed

theorem stored_rating_is_truncated_mean_witness:
  "fst (AddDocument 0 ''a'' ACTUAL [1, 2, 3] empty_server) = Inr ()
   \<and> sums_in_range 0 [1, 2, 3] \<and> length [1, 2, 3 :: int32] < 2 ^ 31
   \<and> (\<exists>d. map_of (documents (snd (AddDocument 0 ''a'' ACTUAL [1, 2, 3] empty_server))) 0 = Some d
          \<and> sint (rating d) = 2)"
proof -
  have a: "fst (AddDocument 0 ''a'' ACTUAL [1, 2, 3] empty_server) = Inr ()"
    by (simp add: model_defs empty_server_def)
  have b: "sums_in_range 0 [1, 2, 3]" by simp
  have c: "length [1, 2, 3 :: int32] < 2 ^ 31" by simp
  show ?thesis
    using stored_rating_is_truncated_mean [OF a b c] a b
    by (auto simp: signed_divide_int_def)
qed

theorem rating_sum_overflow:
  "fst (AddDocument 0 ''a'' ACTUAL [2147483647, 1] empty_server) = Inr ()
   \<and> map (\<lambda>p. (fst p, sint (rating (snd p))))
        (documents (snd (AddDocument 0 ''a'' ACTUAL [2147483647, 1] empty_server)))
       = [(0, - 1073741824)]
   \<and> sum_list (map sint [2147483647, 1 :: int32]) sdiv int (length [2147483647, 1 :: int32])
       = 1073741824"
  by (simp add: model_defs empty_server_def)

section \<open>The tokenizer\<close>

lemma find_char_None: "find_char c str = None \<longleftrightarrow> c \<notin> set str"
  by (induction str) auto

lemma SplitIntoWords_Nil: "SplitIntoWords [] = [[]]"
  by (simp add: SplitIntoWords.simps)

lemma SplitIntoWords_Cons:
  "SplitIntoWords (c # str) =
     (if c = CHR '' '' then [] # SplitIntoWords str
      else (c # hd (SplitIntoWords str)) # tl (SplitIntoWords str))"
proof (cases "c = CHR '' ''")
  case True
  then show ?thesis by (subst SplitIntoWords.simps) simp
next
  case False
  show ?thesis
  proof (cases "find_char (CHR '' '') str")
    case None
    with False show ?thesis
      by (subst SplitIntoWords.simps, subst (2 3) SplitIntoWords.simps) simp
  next
    case (Some i)
    with False show ?thesis
      by (subst SplitIntoWords.simps, subst (2 3) SplitIntoWords.simps) simp
  qed
qed

lemma SplitIntoWords_not_Nil: "SplitIntoWords str \<noteq> []"
  by (cases str) (simp_all add: SplitIntoWords_Nil SplitIntoWords_Cons)

lemma SplitIntoWords_no_space:
  "CHR '' '' \<notin> set str \<Longrightarrow> SplitIntoWords str = [str]"
  by (induction str) (auto simp: SplitIntoWords_Nil SplitIntoWords_Cons)

lemma SplitIntoWords_space:
  "SplitIntoWords (a @ CHR '' '' # b) = SplitIntoWords a @ SplitIntoWords b"
proof (induction a)
  case Nil
  show ?case by (simp add: SplitIntoWords_Nil SplitIntoWords_Cons)
next
  case (Cons c a)
  obtain w ws where "SplitIntoWords a = w # ws"
    using SplitIntoWords_not_Nil [of a] by (cases "SplitIntoWords a") auto
  with Cons show ?case by (simp add: SplitIntoWords_Cons)
qed




lemma length_SplitIntoWords:
  "length (SplitIntoWords str) = Suc (count_list str (CHR '' ''))"
proof (induction str)
  case Nil
  show ?case by (simp add: SplitIntoWords_Nil)
next
  case (Cons c str)
  obtain v vs where v: "SplitIntoWords str = v # vs"
    using SplitIntoWords_not_Nil [of str] by (cases "SplitIntoWords str") auto
  with Cons show ?case by (simp add: SplitIntoWords_Cons)
qed

section \<open>Word validation\<close>

lemma control_char_iff: "(char_value c \<ge> 0 \<and> char_value c < 32) \<longleftrightarrow> of_char c < (32::nat)"
proof -
  define n :: nat where "n = of_char c"
  have "int n = (of_char c :: int)" unfolding n_def by (rule of_nat_of_char)
  then have i: "(of_char c :: int) = int n" by simp
  have "n < 256" by (simp add: n_def)
  then show ?thesis
    unfolding char_value_def Let_def i n_def [symmetric] by auto
qed

lemma IsValidWord_iff: "IsValidWord w \<longleftrightarrow> \<not> has_control_character w"
  by (simp add: IsValidWord_def has_control_character_def control_char_iff)


section \<open>Query parsing\<close>

lemma ParseQueryWord_malformed:
  "malformed_query_word w \<Longrightarrow> ParseQueryWord w s = Inl invalid_argument"
  by (auto simp: ParseQueryWord_def malformed_query_word_def strip_minus_def IsValidWord_iff
      Let_def split: if_splits)

lemma ParseQueryWord_wellformed:
  "\<not> malformed_query_word w \<Longrightarrow>
     ParseQueryWord w s =
       Inr (QueryWord (strip_minus w) (hd w = CHR ''-'') (IsStopWord (strip_minus w) s))"
  by (auto simp: ParseQueryWord_def malformed_query_word_def strip_minus_def IsValidWord_iff
      Let_def split: if_splits)

lemma strip_minus_plus: "w \<noteq> [] \<Longrightarrow> hd w \<noteq> CHR ''-'' \<Longrightarrow> strip_minus w = w"
  by (simp add: strip_minus_def)

lemma strip_minus_minus: "w \<noteq> [] \<Longrightarrow> hd w = CHR ''-'' \<Longrightarrow> strip_minus w = tl w"
  by (simp add: strip_minus_def)

lemma malformed_Nil: "malformed_query_word []"
  by (simp add: malformed_query_word_def strip_minus_def)

lemma distinct_set_insert: "distinct xs \<Longrightarrow> distinct (set_insert x xs)"
  by (simp add: set_insert_def distinct_insort)

lemma sorted_set_insert: "sorted xs \<Longrightarrow> sorted (set_insert x xs)"
  by (simp add: set_insert_def sorted_insort)

lemma ParseQuery_loop_malformed:
  "\<exists>w \<in> set ws. malformed_query_word w \<Longrightarrow> ParseQuery_loop s ws q = Inl invalid_argument"
proof (induction ws arbitrary: q)
  case Nil
  then show ?case by simp
next
  case (Cons w ws)
  show ?case
  proof (cases "malformed_query_word w")
    case True
    then show ?thesis by (simp add: ParseQueryWord_malformed)
  next
    case False
    with Cons.prems have "\<exists>w \<in> set ws. malformed_query_word w" by simp
    from Cons.IH [OF this] show ?thesis by (simp add: ParseQueryWord_wellformed [OF False])
  qed
qed

lemma ParseQuery_loop_wellformed:
  assumes "\<forall>w \<in> set ws. \<not> malformed_query_word w"
  shows "\<exists>q'. ParseQuery_loop s ws q = Inr q'
     \<and> set (plus_words q') =
         set (plus_words q) \<union> {w \<in> set ws. hd w \<noteq> CHR ''-'' \<and> \<not> IsStopWord w s}
     \<and> set (minus_words q') =
         set (minus_words q) \<union> {tl w |w. w \<in> set ws \<and> hd w = CHR ''-'' \<and> \<not> IsStopWord (tl w) s}
     \<and> (distinct (plus_words q) \<longrightarrow> distinct (plus_words q'))
     \<and> (distinct (minus_words q) \<longrightarrow> distinct (minus_words q'))
     \<and> (sorted (plus_words q) \<longrightarrow> sorted (plus_words q'))
     \<and> (sorted (minus_words q) \<longrightarrow> sorted (minus_words q'))"
  using assms
proof (induction ws arbitrary: q)
  case Nil
  show ?case by simp
next
  case (Cons w ws)
  from Cons.prems have wf: "\<not> malformed_query_word w"
    and rest: "\<forall>w \<in> set ws. \<not> malformed_query_word w" by simp_all
  from wf have ne: "w \<noteq> []" using malformed_Nil by blast
  let ?q1 = "if \<not> IsStopWord (strip_minus w) s
             then (if hd w = CHR ''-''
                   then q\<lparr>minus_words := set_insert (strip_minus w) (minus_words q)\<rparr>
                   else q\<lparr>plus_words := set_insert (strip_minus w) (plus_words q)\<rparr>)
             else q"
  have step: "ParseQuery_loop s (w # ws) q = ParseQuery_loop s ws ?q1"
    by (simp add: ParseQueryWord_wellformed [OF wf])
  obtain q' where q': "ParseQuery_loop s ws ?q1 = Inr q'"
    and p: "set (plus_words q') =
         set (plus_words ?q1) \<union> {w \<in> set ws. hd w \<noteq> CHR ''-'' \<and> \<not> IsStopWord w s}"
    and m: "set (minus_words q') =
         set (minus_words ?q1) \<union> {tl w |w. w \<in> set ws \<and> hd w = CHR ''-'' \<and> \<not> IsStopWord (tl w) s}"
    and d: "distinct (plus_words ?q1) \<longrightarrow> distinct (plus_words q')"
       "distinct (minus_words ?q1) \<longrightarrow> distinct (minus_words q')"
       "sorted (plus_words ?q1) \<longrightarrow> sorted (plus_words q')"
       "sorted (minus_words ?q1) \<longrightarrow> sorted (minus_words q')"
    using Cons.IH [OF rest, of ?q1] by blast
  show ?case
  proof (cases "hd w = CHR ''-''")
    case True
    then have sm: "strip_minus w = tl w" using ne by (simp add: strip_minus_minus)
    show ?thesis
      unfolding step using q' p m d True
      by (auto simp: sm set_set_insert distinct_set_insert sorted_set_insert)
  next
    case False
    then have sm: "strip_minus w = w" using ne by (simp add: strip_minus_plus)
    show ?thesis
      unfolding step using q' p m d False
      by (auto simp: sm set_set_insert distinct_set_insert sorted_set_insert)
  qed
qed

lemma ParseQuery_Inl_iff:
  "ParseQuery raw_query s = Inl e \<longleftrightarrow>
     e = invalid_argument \<and> (\<exists>w \<in> set (SplitIntoWords raw_query). malformed_query_word w)"
proof (cases "\<exists>w \<in> set (SplitIntoWords raw_query). malformed_query_word w")
  case True
  then have "ParseQuery raw_query s = Inl invalid_argument"
    unfolding ParseQuery_def by (rule ParseQuery_loop_malformed)
  with True show ?thesis by auto
next
  case False
  then have "\<forall>w \<in> set (SplitIntoWords raw_query). \<not> malformed_query_word w" by simp
  from ParseQuery_loop_wellformed [OF this, of s "\<lparr>plus_words = [], minus_words = []\<rparr>"]
  obtain q where "ParseQuery raw_query s = Inr q"
    unfolding ParseQuery_def by blast
  with False show ?thesis by simp
qed

lemma ParseQuery_Inr:
  assumes "ParseQuery raw_query s = Inr q"
  shows "set (plus_words q) =
            {w \<in> set (SplitIntoWords raw_query). hd w \<noteq> CHR ''-'' \<and> \<not> IsStopWord w s}"
    and "set (minus_words q) =
            {tl w |w. w \<in> set (SplitIntoWords raw_query) \<and> hd w = CHR ''-''
                      \<and> \<not> IsStopWord (tl w) s}"
    and "distinct (plus_words q)" and "distinct (minus_words q)"
    and "sorted (plus_words q)" and "sorted (minus_words q)"
proof -
  have "\<not> (\<exists>w \<in> set (SplitIntoWords raw_query). malformed_query_word w)"
    using assms ParseQuery_Inl_iff [of raw_query s invalid_argument] by auto
  then have wf: "\<forall>w \<in> set (SplitIntoWords raw_query). \<not> malformed_query_word w" by simp
  from ParseQuery_loop_wellformed [OF wf, of s "\<lparr>plus_words = [], minus_words = []\<rparr>"]
  obtain q' where q': "ParseQuery_loop s (SplitIntoWords raw_query)
        \<lparr>plus_words = [], minus_words = []\<rparr> = Inr q'"
    and p: "set (plus_words q') =
      set (plus_words \<lparr>plus_words = [], minus_words = []\<rparr>) \<union>
      {w \<in> set (SplitIntoWords raw_query). hd w \<noteq> CHR ''-'' \<and> \<not> IsStopWord w s}"
    and m: "set (minus_words q') =
      set (minus_words \<lparr>plus_words = [], minus_words = []\<rparr>) \<union>
      {tl w |w. w \<in> set (SplitIntoWords raw_query) \<and> hd w = CHR ''-'' \<and> \<not> IsStopWord (tl w) s}"
    and d: "distinct (plus_words \<lparr>plus_words = [], minus_words = []\<rparr>) \<longrightarrow> distinct (plus_words q')"
      "distinct (minus_words \<lparr>plus_words = [], minus_words = []\<rparr>) \<longrightarrow> distinct (minus_words q')"
      "sorted (plus_words \<lparr>plus_words = [], minus_words = []\<rparr>) \<longrightarrow> sorted (plus_words q')"
      "sorted (minus_words \<lparr>plus_words = [], minus_words = []\<rparr>) \<longrightarrow> sorted (minus_words q')"
    by blast
  have eq: "q' = q" using assms q' by (simp add: ParseQuery_def)
  show "set (plus_words q) =
            {w \<in> set (SplitIntoWords raw_query). hd w \<noteq> CHR ''-'' \<and> \<not> IsStopWord w s}"
    using p by (simp add: eq)
  show "set (minus_words q) =
            {tl w |w. w \<in> set (SplitIntoWords raw_query) \<and> hd w = CHR ''-''
                      \<and> \<not> IsStopWord (tl w) s}"
    using m by (simp add: eq)
  show "distinct (plus_words q)" "distinct (minus_words q)"
    "sorted (plus_words q)" "sorted (minus_words q)"
    using d by (simp_all add: eq)
qed

lemma malformed_examples:
  "malformed_query_word [] \<and> malformed_query_word ''-'' \<and> malformed_query_word ''--''"
  by (simp add: malformed_query_word_def strip_minus_def)

text \<open>
  C6. \<open>ParseQuery\<close> fails with \<open>invalid_argument\<close> exactly when some word of the query,
  after one leading minus sign is stripped, is empty, starts with another minus sign or
  has a control character (so the empty word, "-" and "--" are refused), and with it
  fail \<open>FindTopDocuments\<close> and \<open>MatchDocument\<close>, which parse the query first. When
  \<open>ParseQuery\<close> returns, the plus-terms are the words without a minus sign that are no
  stop words, the minus-terms are the words after a minus sign that are no stop words,
  no stop word is in either set, and both sets are free of duplicates (and ascending).
\<close>

theorem ParseQuery_rejects_malformed_words:
  "(ParseQuery raw_query s = Inl invalid_argument
      \<longleftrightarrow> (\<exists>w \<in> set (SplitIntoWords raw_query). malformed_query_word w))
   \<and> (\<forall>e. ParseQuery raw_query s = Inl e \<longrightarrow>
          e = invalid_argument
          \<and> FindTopDocuments raw_query document_predicate s = Inl invalid_argument
          \<and> MatchDocument raw_query document_id s = Inl invalid_argument)
   \<and> (\<forall>q. ParseQuery raw_query s = Inr q \<longrightarrow>
          set (plus_words q) =
            {w \<in> set (SplitIntoWords raw_query). hd w \<noteq> CHR ''-'' \<and> \<not> IsStopWord w s}
          \<and> set (minus_words q) =
            {tl w |w. w \<in> set (SplitIntoWords raw_query) \<and> hd w = CHR ''-''
                      \<and> \<not> IsStopWord (tl w) s}
          \<and> (\<forall>w \<in> set (plus_words q) \<union> set (minus_words q). \<not> IsStopWord w s)
          \<and> distinct (plus_words q) \<and> distinct (minus_words q)
          \<and> sorted (plus_words q) \<and> sorted (minus_words q))
   \<and> malformed_query_word [] \<and> malformed_query_word ''-'' \<and> malformed_query_word ''--''"
proof -
  have c1: "ParseQuery raw_query s = Inl invalid_argument
      \<longleftrightarrow> (\<exists>w \<in> set (SplitIntoWords raw_query). malformed_query_word w)"
    by (simp add: ParseQuery_Inl_iff)
  have c2: "\<forall>e. ParseQuery raw_query s = Inl e \<longrightarrow>
          e = invalid_argument
          \<and> FindTopDocuments raw_query document_predicate s = Inl invalid_argument
          \<and> MatchDocument raw_query document_id s = Inl invalid_argument"
  proof (intro allI impI)
    fix e assume e: "ParseQuery raw_query s = Inl e"
    then have "e = invalid_argument" by (simp add: ParseQuery_Inl_iff)
    with e show "e = invalid_argument
          \<and> FindTopDocuments raw_query document_predicate s = Inl invalid_argument
          \<and> MatchDocument raw_query document_id s = Inl invalid_argument"
      by (simp add: FindTopDocuments_def MatchDocument_def)
  qed
  have c3: "\<forall>q. ParseQuery raw_query s = Inr q \<longrightarrow>
          set (plus_words q) =
            {w \<in> set (SplitIntoWords raw_query). hd w \<noteq> CHR ''-'' \<and> \<not> IsStopWord w s}
          \<and> set (minus_words q) =
            {tl w |w. w \<in> set (SplitIntoWords raw_query) \<and> hd w = CHR ''-''
                      \<and> \<not> IsStopWord (tl w) s}
          \<and> (\<forall>w \<in> set (plus_words q) \<union> set (minus_words q). \<not> IsStopWord w s)
          \<and> distinct (plus_words q) \<and> distinct (minus_words q)
          \<and> sorted (plus_words q) \<and> sorted (minus_words q)"
  proof (intro allI impI)
    fix q assume q: "ParseQuery raw_query s = Inr q"
    note r = ParseQuery_Inr [OF q]
    have ns: "\<forall>w \<in> set (plus_words q) \<union> set (minus_words q). \<not> IsStopWord w s"
      unfolding r(1) r(2) by blast
    show "set (plus_words q) =
            {w \<in> set (SplitIntoWords raw_query). hd w \<noteq> CHR ''-'' \<and> \<not> IsStopWord w s}
          \<and> set (minus_words q) =
            {tl w |w. w \<in> set (SplitIntoWords raw_query) \<and> hd w = CHR ''-''
                      \<and> \<not> IsStopWord (tl w) s}
          \<and> (\<forall>w \<in> set (plus_words q) \<union> set (minus_words q). \<not> IsStopWord w s)
          \<and> distinct (plus_words q) \<and> distinct (minus_words q)
          \<and> sorted (plus_words q) \<and> sorted (minus_words q)"
      by (intro conjI) (rule r(1), rule r(2), rule ns, rule r(3), rule r(4), rule r(5), rule r(6))
  qed
  show ?thesis
    by (rule conjI [OF c1 conjI [OF c2 conjI [OF c3 malformed_examples]]])
qed

theorem ParseQuery_rejects_malformed_words_witness:
  "ParseQuery ''cat -dog the -the cat -dog''
      \<lparr>stop_words = [''the''], word_to_document_freqs = [], documents = [], document_ids = []\<rparr>
     = Inr \<lparr>plus_words = [''cat''], minus_words = [''dog'']\<rparr>
   \<and> set (plus_words \<lparr>plus_words = [''cat''], minus_words = [''dog'']\<rparr>) =
       {w \<in> set (SplitIntoWords ''cat -dog the -the cat -dog''). hd w \<noteq> CHR ''-''
          \<and> \<not> IsStopWord w
               \<lparr>stop_words = [''the''], word_to_document_freqs = [], documents = [],
                  document_ids = []\<rparr>}
   \<and> (\<exists>w \<in> set (SplitIntoWords ''cat --dog''). malformed_query_word w)
   \<and> ParseQuery ''cat --dog'' empty_server = Inl invalid_argument
   \<and> FindTopDocuments ''cat --dog'' (\<lambda>i st r. True) empty_server = Inl invalid_argument
   \<and> MatchDocument ''cat --dog'' 0 empty_server = Inl invalid_argument"
proof -
  have a: "ParseQuery ''cat -dog the -the cat -dog''
      \<lparr>stop_words = [''the''], word_to_document_freqs = [], documents = [], document_ids = []\<rparr>
     = Inr \<lparr>plus_words = [''cat''], minus_words = [''dog'']\<rparr>"
    by (simp add: model_defs)
  have b: "ParseQuery ''cat --dog'' empty_server = Inl invalid_argument"
    by (simp add: model_defs empty_server_def)
  note t1 = ParseQuery_rejects_malformed_words [of "''cat -dog the -the cat -dog''"
        "\<lparr>stop_words = [''the''], word_to_document_freqs = [], documents = [], document_ids = []\<rparr>"
        "\<lambda>i st r. True" 0]
  note t2 = ParseQuery_rejects_malformed_words [of "''cat --dog''" empty_server
        "\<lambda>i st r. True" 0]
  note p = t1 [THEN conjunct2, THEN conjunct2, THEN conjunct1, rule_format, OF a,
        THEN conjunct1]
  note m = t2 [THEN conjunct1, THEN iffD1, OF b]
  note f = t2 [THEN conjunct2, THEN conjunct1, rule_format, OF b, THEN conjunct2]
  show ?thesis
    by (rule conjI [OF a conjI [OF p conjI [OF m conjI [OF b f]]]])
qed

section \<open>The inverted index and the frequency mappings\<close>

lemma index_entry_iff:
  "index_entry s w i \<longleftrightarrow> index_lookup (word_to_document_freqs s) w i \<noteq> None"
  by (simp add: index_entry_def index_lookup_def map_contains_def split: option.splits)

lemma GetWordFrequencies_eq:
  "GetWordFrequencies i s =
     (case map_of (documents s) i of None \<Rightarrow> [] | Some d \<Rightarrow> word_to_freqs d)"
  by (simp add: GetWordFrequencies_def map_contains_def map_at_def split: option.splits)

lemma index_lookup_add:
  "index_lookup (add_to_index word i x idx) w i' =
     (if w = word \<and> i' = i
      then Some ((case index_lookup idx w i of None \<Rightarrow> 0 | Some f \<Rightarrow> f) + x)
      else index_lookup idx w i')"
  by (simp add: index_lookup_def add_to_index_def Let_def map_of_map_put map_subscript_def
      split: option.splits)

lemma index_lookup_fold_add:
  "index_lookup (fold (\<lambda>word. add_to_index word i x) ws idx) w i' =
     (if i' = i \<and> w \<in> set ws
      then Some ((case index_lookup idx w i of None \<Rightarrow> 0 | Some f \<Rightarrow> f)
                 + real (count_list ws w) * x)
      else index_lookup idx w i')"
proof (induction ws arbitrary: idx)
  case Nil
  show ?case by simp
next
  case (Cons word ws)
  show ?case
    by (auto simp: Cons.IH index_lookup_add algebra_simps split: option.splits)
qed

lemma map_of_add_to_freqs:
  "map_of (add_to_freqs word x freqs) w =
     (if w = word then Some ((case map_of freqs w of None \<Rightarrow> 0 | Some f \<Rightarrow> f) + x)
      else map_of freqs w)"
  by (simp add: add_to_freqs_def map_of_map_put map_subscript_def)

lemma map_of_fold_add_to_freqs:
  "map_of (fold (\<lambda>word. add_to_freqs word x) ws freqs) w =
     (if w \<in> set ws
      then Some ((case map_of freqs w of None \<Rightarrow> 0 | Some f \<Rightarrow> f) + real (count_list ws w) * x)
      else map_of freqs w)"
proof (induction ws arbitrary: freqs)
  case Nil
  show ?case by simp
next
  case (Cons word ws)
  show ?case
    by (auto simp: Cons.IH map_of_add_to_freqs algebra_simps split: option.splits)
qed

lemma index_lookup_erase:
  "index_lookup (erase_from_index word i idx) w i' =
     (if w = word \<and> i' = i then None else index_lookup idx w i')"
  by (simp add: index_lookup_def erase_from_index_def map_of_map_put map_of_map_erase
      map_subscript_def split: option.splits)

lemma index_lookup_fold_erase:
  "index_lookup (fold (\<lambda>word. erase_from_index (fst word) i) ps idx) w i' =
     (if i' = i \<and> w \<in> fst ` set ps then None else index_lookup idx w i')"
proof (induction ps arbitrary: idx)
  case Nil
  show ?case by simp
next
  case (Cons p ps)
  show ?case by (auto simp: Cons.IH index_lookup_erase)
qed

section \<open>The invariant of the engine\<close>

lemma server_invariantI:
  assumes "\<And>w i. index_lookup (word_to_document_freqs s) w i = map_of (GetWordFrequencies i s) w"
    and "\<And>i. i \<in> set (document_ids s) \<Longrightarrow> i \<in> fst ` set (documents s)"
    and "\<And>i. i \<notin> set (document_ids s) \<Longrightarrow> GetWordFrequencies i s = []"
    and "[] \<notin> set (stop_words s)"
    and "\<And>i. i \<in> set (document_ids s) \<Longrightarrow> \<exists>d words.
          map_of (documents s) i = Some d
        \<and> SplitIntoWordsNoStop (data d) s = Inr words
        \<and> (\<forall>w. map_of (word_to_freqs d) w =
                 (if w \<in> set words
                  then Some (real (count_list words w) / real (length words)) else None))"
  shows "server_invariant s"
  unfolding server_invariant_def using assms by blast

lemma inv_lookup:
  "server_invariant s \<Longrightarrow>
     index_lookup (word_to_document_freqs s) w i = map_of (GetWordFrequencies i s) w"
  by (simp add: server_invariant_def)

lemma inv_ids:
  "server_invariant s \<Longrightarrow> i \<in> set (document_ids s) \<Longrightarrow> i \<in> fst ` set (documents s)"
  unfolding server_invariant_def by blast

lemma inv_unregistered:
  "server_invariant s \<Longrightarrow> i \<notin> set (document_ids s) \<Longrightarrow> GetWordFrequencies i s = []"
  by (simp add: server_invariant_def)

lemma inv_stop: "server_invariant s \<Longrightarrow> [] \<notin> set (stop_words s)"
  by (simp add: server_invariant_def)

lemma inv_doc:
  "server_invariant s \<Longrightarrow> i \<in> set (document_ids s) \<Longrightarrow> \<exists>d words.
          map_of (documents s) i = Some d
        \<and> SplitIntoWordsNoStop (data d) s = Inr words
        \<and> (\<forall>w. map_of (word_to_freqs d) w =
                 (if w \<in> set words
                  then Some (real (count_list words w) / real (length words)) else None))"
  unfolding server_invariant_def by blast

lemma inv_absent:
  assumes "server_invariant s" and "\<not> map_contains (documents s) i"
  shows "i \<notin> set (document_ids s)" and "GetWordFrequencies i s = []"
    and "index_lookup (word_to_document_freqs s) w i = None"
proof -
  show a: "i \<notin> set (document_ids s)"
    using assms inv_ids [of s i] by (auto simp: map_contains_iff)
  show b: "GetWordFrequencies i s = []"
    using assms(1) a by (rule inv_unregistered)
  show "index_lookup (word_to_document_freqs s) w i = None"
    by (simp add: inv_lookup [OF assms(1)] b)
qed

lemma SplitIntoWordsNoStop_loop_cong:
  assumes "stop_words s' = stop_words s"
  shows "SplitIntoWordsNoStop_loop s' ws acc = SplitIntoWordsNoStop_loop s ws acc"
proof -
  have st: "IsStopWord w s' = IsStopWord w s" for w
    by (simp add: IsStopWord_def assms)
  show ?thesis by (induction ws arbitrary: acc) (simp_all add: st)
qed

lemma SplitIntoWordsNoStop_cong:
  "stop_words s' = stop_words s \<Longrightarrow> SplitIntoWordsNoStop t s' = SplitIntoWordsNoStop t s"
  unfolding SplitIntoWordsNoStop_def by (rule SplitIntoWordsNoStop_loop_cong)

lemma MakeUniqueNonEmptyStrings_no_empty: "[] \<notin> set (MakeUniqueNonEmptyStrings strings)"
proof -
  have "[] \<notin> set acc \<Longrightarrow>
      [] \<notin> set (fold (\<lambda>str non_empty_strings.
             if str \<noteq> [] then set_insert str non_empty_strings else non_empty_strings)
          strings acc)" for acc
    by (induction strings arbitrary: acc) (simp_all add: set_set_insert)
  then show ?thesis by (simp add: MakeUniqueNonEmptyStrings_def)
qed

lemma invariant_constructed:
  assumes "SearchServer_from_container stop_words_arg = Inr s"
  shows "server_invariant s"
proof -
  have s: "s = \<lparr>stop_words = MakeUniqueNonEmptyStrings stop_words_arg,
      word_to_document_freqs = [], documents = [], document_ids = []\<rparr>"
    using assms by (simp add: SearchServer_from_container_def Let_def split: if_splits)
  show ?thesis
    unfolding s
    by (rule server_invariantI)
       (simp_all add: index_lookup_def GetWordFrequencies_eq MakeUniqueNonEmptyStrings_no_empty)
qed

lemma RemoveDocument_absent:
  "\<not> map_contains (documents s) i \<Longrightarrow> RemoveDocument i s = (Inr (), s)"
  by (simp add: RemoveDocument_def)

lemma RemoveDocument_present:
  "map_of (documents s) i = Some d \<Longrightarrow>
     RemoveDocument i s =
       (Inr (),
        s\<lparr>word_to_document_freqs :=
             fold (\<lambda>word. erase_from_index (fst word) i) (word_to_freqs d)
               (word_to_document_freqs s),
           documents := map_erase i (documents s),
           document_ids := set_erase i (document_ids s)\<rparr>)"
  by (simp add: RemoveDocument_def map_contains_def map_at_def)

lemma invariant_RemoveDocument:
  assumes inv: "server_invariant s"
  shows "server_invariant (snd (RemoveDocument i s))"
proof (cases "map_of (documents s) i")
  case None
  then show ?thesis using inv by (simp add: RemoveDocument_absent map_contains_def)
next
  case (Some d)
  let ?s' = "s\<lparr>word_to_document_freqs :=
             fold (\<lambda>word. erase_from_index (fst word) i) (word_to_freqs d)
               (word_to_document_freqs s),
           documents := map_erase i (documents s),
           document_ids := set_erase i (document_ids s)\<rparr>"
  have gwf: "GetWordFrequencies j ?s' = (if j = i then [] else GetWordFrequencies j s)" for j
    by (simp add: GetWordFrequencies_eq map_of_map_erase)
  have gwf_i: "GetWordFrequencies i s = word_to_freqs d"
    by (simp add: GetWordFrequencies_eq Some)
  have "server_invariant ?s'"
  proof (rule server_invariantI)
    fix w j
    show "index_lookup (word_to_document_freqs ?s') w j = map_of (GetWordFrequencies j ?s') w"
    proof (cases "j = i")
      case True
      have "w \<notin> fst ` set (word_to_freqs d) \<Longrightarrow>
          index_lookup (word_to_document_freqs s) w i = None"
        by (simp add: inv_lookup [OF inv] gwf_i map_of_eq_None_iff)
      then show ?thesis
        using True by (simp add: index_lookup_fold_erase gwf)
    next
      case False
      then show ?thesis
        by (simp add: index_lookup_fold_erase gwf inv_lookup [OF inv])
    qed
  next
    fix j assume "j \<in> set (document_ids ?s')"
    then have "j \<noteq> i" "j \<in> set (document_ids s)" by (simp_all add: set_set_erase)
    then show "j \<in> fst ` set (documents ?s')"
      using inv_ids [OF inv, of j] by (simp add: keys_map_erase)
  next
    fix j assume "j \<notin> set (document_ids ?s')"
    then have "j = i \<or> j \<notin> set (document_ids s)" by (auto simp: set_set_erase)
    then show "GetWordFrequencies j ?s' = []"
      using inv_unregistered [OF inv, of j] by (auto simp: gwf)
  next
    show "[] \<notin> set (stop_words ?s')" using inv_stop [OF inv] by simp
  next
    fix j assume "j \<in> set (document_ids ?s')"
    then have j: "j \<noteq> i" "j \<in> set (document_ids s)" by (simp_all add: set_set_erase)
    have sp: "SplitIntoWordsNoStop t ?s' = SplitIntoWordsNoStop t s" for t
      by (rule SplitIntoWordsNoStop_cong) simp
    show "\<exists>d words. map_of (documents ?s') j = Some d
        \<and> SplitIntoWordsNoStop (data d) ?s' = Inr words
        \<and> (\<forall>w. map_of (word_to_freqs d) w =
                 (if w \<in> set words
                  then Some (real (count_list words w) / real (length words)) else None))"
      using inv_doc [OF inv j(2)] j(1) by (simp add: sp map_of_map_erase)
  qed
  then show ?thesis by (simp add: RemoveDocument_present [OF Some])
qed

lemma invariant_AddDocument:
  assumes inv: "server_invariant s"
  shows "server_invariant (snd (AddDocument i document st ratings s))"
proof (cases "i < 0 \<or> map_contains (documents s) i")
  case True
  then show ?thesis using inv by (simp add: AddDocument_refused)
next
  case False
  then have absent: "\<not> map_contains (documents s) i" by simp
  note ab = inv_absent [OF inv absent]
  show ?thesis
  proof (cases "SplitIntoWordsNoStop document s")
    case (Inl e)
    let ?doc = "\<lparr>rating = ComputeAverageRating ratings, status = st, data = document,
           word_to_freqs = []\<rparr>"
    let ?s' = "s\<lparr>documents := map_put i ?doc (documents s)\<rparr>"
    have gwf: "GetWordFrequencies j ?s' = (if j = i then [] else GetWordFrequencies j s)" for j
      by (simp add: GetWordFrequencies_eq map_of_map_put)
    have sp: "SplitIntoWordsNoStop t ?s' = SplitIntoWordsNoStop t s" for t
      by (rule SplitIntoWordsNoStop_cong) simp
    have "server_invariant ?s'"
    proof (rule server_invariantI)
      fix w j
      show "index_lookup (word_to_document_freqs ?s') w j = map_of (GetWordFrequencies j ?s') w"
        using ab(3) [of w] by (simp add: gwf inv_lookup [OF inv])
    next
      fix j assume "j \<in> set (document_ids ?s')"
      then show "j \<in> fst ` set (documents ?s')"
        using inv_ids [OF inv, of j] by (simp add: keys_map_put)
    next
      fix j assume "j \<notin> set (document_ids ?s')"
      then show "GetWordFrequencies j ?s' = []"
        using inv_unregistered [OF inv, of j] by (simp add: gwf)
    next
      show "[] \<notin> set (stop_words ?s')" using inv_stop [OF inv] by simp
    next
      fix j assume j: "j \<in> set (document_ids ?s')"
      then have "j \<noteq> i" using ab(1) by auto
      then show "\<exists>d words. map_of (documents ?s') j = Some d
        \<and> SplitIntoWordsNoStop (data d) ?s' = Inr words
        \<and> (\<forall>w. map_of (word_to_freqs d) w =
                 (if w \<in> set words
                  then Some (real (count_list words w) / real (length words)) else None))"
        using inv_doc [OF inv, of j] j by (simp add: sp map_of_map_put)
    qed
    then show ?thesis by (simp add: AddDocument_invalid [OF False Inl])
  next
    case (Inr words)
    let ?x = "1 / real (length words)"
    let ?freqs = "fold (\<lambda>word. add_to_freqs word ?x) words []"
    let ?blank = "\<lparr>rating = ComputeAverageRating ratings, status = st, data = document,
           word_to_freqs = []\<rparr>"
    let ?doc = "\<lparr>rating = ComputeAverageRating ratings, status = st, data = document,
           word_to_freqs = ?freqs\<rparr>"
    let ?s' = "s\<lparr>word_to_document_freqs :=
           fold (\<lambda>word. add_to_index word i ?x) words (word_to_document_freqs s),
         documents := map_put i ?doc (map_put i ?blank (documents s)),
         document_ids := set_insert i (document_ids s)\<rparr>"
    have gwf: "GetWordFrequencies j ?s' = (if j = i then ?freqs else GetWordFrequencies j s)" for j
      by (simp add: GetWordFrequencies_eq map_of_map_put)
    have sp: "SplitIntoWordsNoStop t ?s' = SplitIntoWordsNoStop t s" for t
      by (rule SplitIntoWordsNoStop_cong) simp
    have fr: "map_of ?freqs w =
        (if w \<in> set words then Some (real (count_list words w) / real (length words)) else None)"
      for w
      by (simp add: map_of_fold_add_to_freqs)
    have "server_invariant ?s'"
    proof (rule server_invariantI)
      fix w j
      show "index_lookup (word_to_document_freqs ?s') w j = map_of (GetWordFrequencies j ?s') w"
        using ab(3) [of w]
        by (simp add: gwf fr index_lookup_fold_add inv_lookup [OF inv])
    next
      fix j assume "j \<in> set (document_ids ?s')"
      then show "j \<in> fst ` set (documents ?s')"
        using inv_ids [OF inv, of j] by (auto simp: keys_map_put set_set_insert)
    next
      fix j assume "j \<notin> set (document_ids ?s')"
      then show "GetWordFrequencies j ?s' = []"
        using inv_unregistered [OF inv, of j] by (simp add: gwf set_set_insert)
    next
      show "[] \<notin> set (stop_words ?s')" using inv_stop [OF inv] by simp
    next
      fix j assume j: "j \<in> set (document_ids ?s')"
      show "\<exists>d words. map_of (documents ?s') j = Some d
        \<and> SplitIntoWordsNoStop (data d) ?s' = Inr words
        \<and> (\<forall>w. map_of (word_to_freqs d) w =
                 (if w \<in> set words
                  then Some (real (count_list words w) / real (length words)) else None))"
      proof (cases "j = i")
        case True
        then show ?thesis by (simp add: sp map_of_map_put Inr fr)
      next
        case False
        with j have "j \<in> set (document_ids s)" by (simp add: set_set_insert)
        from inv_doc [OF inv this] False show ?thesis by (simp add: sp map_of_map_put)
      qed
    qed
    then show ?thesis by (simp add: AddDocument_added [OF False Inr])
  qed
qed

lemma invariant_run:
  "server_invariant s \<Longrightarrow> server_invariant (run ops s)"
  unfolding run_def
proof (induction ops arbitrary: s)
  case Nil
  then show ?case by simp
next
  case (Cons operation ops)
  have "server_invariant (apply_operation operation s)"
    using Cons.prems
    by (cases operation) (simp_all add: invariant_AddDocument invariant_RemoveDocument)
  from Cons.IH [OF this] show ?case by simp
qed

lemma invariant_reachable:
  "SearchServer_from_container stop_words_arg = Inr s0 \<Longrightarrow> server_invariant (run ops s0)"
  by (intro invariant_run invariant_constructed)

section \<open>The inverted index after a history\<close>

text \<open>
  As long as no key of the index views a freed text, the inverted index has an entry for
  a word and a document id exactly when the word is in the frequency mapping stored for
  that id and the id is in the registry, and \<open>RemoveDocument(id)\<close> leaves no entry, no
  frequencies and no registration of the id.
\<close>

lemma index_matches_frequency_mappings_while_keys_live:
  assumes "SearchServer_from_container stop_words_arg = Inr s0"
    and "list_all (\<lambda>v. \<not> text_freed v) (snd (track ops s0))"
  shows "(\<forall>word i. index_entry (run ops s0) word i \<longleftrightarrow>
            (word \<in> fst ` set (GetWordFrequencies i (run ops s0))
             \<and> i \<in> set (Ids (run ops s0))))
       \<and> (\<forall>i. i \<notin> set (Ids (snd (RemoveDocument i (run ops s0))))
             \<and> GetWordFrequencies i (snd (RemoveDocument i (run ops s0))) = []
             \<and> (\<forall>word. \<not> index_entry (snd (RemoveDocument i (run ops s0))) word i))"
proof -
  have entry: "index_entry s word i \<longleftrightarrow>
      (word \<in> fst ` set (GetWordFrequencies i s) \<and> i \<in> set (Ids s))"
    if inv: "server_invariant s" for s word i
  proof -
    have "index_entry s word i \<longleftrightarrow> word \<in> fst ` set (GetWordFrequencies i s)"
      by (simp add: index_entry_iff inv_lookup [OF inv] map_of_eq_None_iff)
    moreover have "i \<in> set (Ids s)" if "word \<in> fst ` set (GetWordFrequencies i s)"
    proof (rule ccontr)
      assume "i \<notin> set (Ids s)"
      then have "GetWordFrequencies i s = []"
        using inv_unregistered [OF inv, of i] by (simp add: Ids_def)
      with that show False by simp
    qed
    ultimately show ?thesis by blast
  qed
  have inv: "server_invariant (run ops s0)"
    using assms(1) by (rule invariant_reachable)
  have removed: "i \<notin> set (Ids (snd (RemoveDocument i s)))
      \<and> GetWordFrequencies i (snd (RemoveDocument i s)) = []
      \<and> (\<forall>word. \<not> index_entry (snd (RemoveDocument i s)) word i)"
    if inv: "server_invariant s" for s i
  proof -
    have inv': "server_invariant (snd (RemoveDocument i s))"
      using inv by (rule invariant_RemoveDocument)
    have a: "i \<notin> set (document_ids (snd (RemoveDocument i s)))"
    proof (cases "map_of (documents s) i")
      case None
      then have "\<not> map_contains (documents s) i" by (simp add: map_contains_def)
      then show ?thesis
        using inv_absent(1) [OF inv] by (simp add: RemoveDocument_absent)
    next
      case (Some d)
      then show ?thesis by (simp add: RemoveDocument_present set_set_erase)
    qed
    have b: "GetWordFrequencies i (snd (RemoveDocument i s)) = []"
      using inv' a by (rule inv_unregistered)
    show ?thesis
      using a b by (simp add: entry [OF inv'] Ids_def)
  qed
  show ?thesis
    using entry [OF inv] removed [OF inv] by blast
qed

lemma fst_track_operation: "fst (track_operation operation (s, views)) = apply_operation operation s"
  by (cases operation) (simp_all add: Let_def)

lemma fst_fold_track_operation:
  "fst (fold track_operation ops (s, views)) = fold apply_operation ops s"
proof (induction ops arbitrary: s views)
  case Nil
  show ?case by simp
next
  case (Cons operation ops)
  obtain s' views' where t: "track_operation operation (s, views) = (s', views')"
    by (cases "track_operation operation (s, views)")
  then have "s' = apply_operation operation s"
    using fst_track_operation [of operation s views] by simp
  with Cons.IH [of s' views'] t show ?case by simp
qed

lemma fst_track: "fst (track ops s) = run ops s"
  by (simp add: track_def run_def fst_fold_track_operation)

text \<open>
  C3. The inverted index is claimed to agree with the stored frequency mappings and the
  registry after any sequence of \<open>AddDocument\<close> and \<open>RemoveDocument\<close> calls. The keys of
  the index are views into document texts, and \<open>RemoveDocument\<close> destroys the text of
  the document it erases while the keys stay. After \<open>AddDocument(0, "cat")\<close>,
  \<open>AddDocument(1, "cat")\<close> and \<open>RemoveDocument(0)\<close>, document 1 is registered with the
  word "cat", and the one key of the index, under which the entry of document 1 sits,
  views the freed text of document 0. \<open>AddDocument(2, "dog")\<close> then looks "dog" up in
  that index and compares it with the freed text: what the index holds from there on
  is not defined by the code.
\<close>

theorem index_key_views_freed_text:
  "track [Add 0 ''cat'' ACTUAL [], Add 1 ''cat'' ACTUAL [], Remove 0] empty_server =
     (\<lparr>stop_words = [],
         word_to_document_freqs = [(''cat'', [(1, 1)])],
         documents = [(1, \<lparr>rating = 0, status = ACTUAL, data = ''cat'',
                             word_to_freqs = [(''cat'', 1)]\<rparr>)],
         document_ids = [1]\<rparr>,
      [KeyView ''cat'' 0 True])
   \<and> run [Add 0 ''cat'' ACTUAL [], Add 1 ''cat'' ACTUAL [], Remove 0] empty_server =
       fst (track [Add 0 ''cat'' ACTUAL [], Add 1 ''cat'' ACTUAL [], Remove 0] empty_server)
   \<and> sole_key_freed
       (snd (track [Add 0 ''cat'' ACTUAL [], Add 1 ''cat'' ACTUAL [], Remove 0] empty_server))
   \<and> AddDocument_looks_up 2 ''dog''
       (fst (track [Add 0 ''cat'' ACTUAL [], Add 1 ''cat'' ACTUAL [], Remove 0] empty_server))"
proof -
  have t: "track [Add 0 ''cat'' ACTUAL [], Add 1 ''cat'' ACTUAL [], Remove 0] empty_server =
     (\<lparr>stop_words = [],
         word_to_document_freqs = [(''cat'', [(1, 1)])],
         documents = [(1, \<lparr>rating = 0, status = ACTUAL, data = ''cat'',
                             word_to_freqs = [(''cat'', 1)]\<rparr>)],
         document_ids = [1]\<rparr>,
      [KeyView ''cat'' 0 True])"
    by (simp add: track_def new_keys_def empty_server_def model_defs)
  have r: "run [Add 0 ''cat'' ACTUAL [], Add 1 ''cat'' ACTUAL [], Remove 0] empty_server =
       fst (track [Add 0 ''cat'' ACTUAL [], Add 1 ''cat'' ACTUAL [], Remove 0] empty_server)"
    by (simp only: fst_track)
  have f: "sole_key_freed
       (snd (track [Add 0 ''cat'' ACTUAL [], Add 1 ''cat'' ACTUAL [], Remove 0] empty_server))"
    unfolding t by (simp add: sole_key_freed_def)
  have l: "AddDocument_looks_up 2 ''dog''
       (fst (track [Add 0 ''cat'' ACTUAL [], Add 1 ''cat'' ACTUAL [], Remove 0] empty_server))"
    unfolding t by (simp add: AddDocument_looks_up_def model_defs)
  show ?thesis
    by (rule conjI [OF t conjI [OF r conjI [OF f l]]])
qed

section \<open>Loops that may throw\<close>

lemma for_each_invariant:
  assumes "P a"
    and "\<And>x a. x \<in> set xs \<Longrightarrow> P a \<Longrightarrow> \<exists>a'. f x a = Inr a' \<and> P a'"
  shows "\<exists>a'. for_each f xs a = Inr a' \<and> P a'"
  using assms
proof (induction xs arbitrary: a)
  case Nil
  then show ?case by simp
next
  case (Cons x xs)
  from Cons.prems(2) [of x a] Cons.prems(1)
  obtain a1 where a1: "f x a = Inr a1" "P a1" by auto
  have "\<exists>a'. for_each f xs a1 = Inr a' \<and> P a'"
    using a1(2) Cons.prems(2) by (intro Cons.IH) auto
  then show ?case by (simp add: a1(1))
qed

section \<open>The sort keeps the elements\<close>

lemma set_linear_insert: "set (linear_insert before val ps) = insert val (set ps)"
  by (induction ps) auto

lemma length_linear_insert: "length (linear_insert before val ps) = Suc (length ps)"
  by (induction ps) auto

lemma set_insertion_step: "set (insertion_step before val ps) = insert val (set ps)"
  by (simp add: insertion_step_def set_linear_insert)

lemma length_insertion_step: "length (insertion_step before val ps) = Suc (length ps)"
  by (simp add: insertion_step_def length_linear_insert)

lemma set_fold_insertion_step:
  "set (fold (insertion_step before) xs acc) = set xs \<union> set acc"
  by (induction xs arbitrary: acc) (auto simp: set_insertion_step)

lemma length_fold_insertion_step:
  "length (fold (insertion_step before) xs acc) = length xs + length acc"
  by (induction xs arbitrary: acc) (auto simp: length_insertion_step)

lemma set_std_sort: "set (std_sort before xs) = set xs"
  by (simp add: std_sort_def set_fold_insertion_step)

lemma length_std_sort: "length (std_sort before xs) = length xs"
  by (simp add: std_sort_def length_fold_insertion_step)

section \<open>FindAllDocuments\<close>

lemma keys_AddToValue: "fst ` set (AddToValue k x m) = insert k (fst ` set m)"
  by (simp add: AddToValue_def keys_map_put)

lemma inv_entry_has_document:
  assumes inv: "server_invariant s"
    and "map_of (word_to_document_freqs s) w = Some freqs" and "i \<in> fst ` set freqs"
  shows "\<exists>d. map_of (documents s) i = Some d"
proof -
  have "index_lookup (word_to_document_freqs s) w i \<noteq> None"
    using assms(2,3) by (simp add: index_lookup_def map_of_eq_None_iff)
  then have "map_of (GetWordFrequencies i s) w \<noteq> None"
    by (simp add: inv_lookup [OF inv])
  then show ?thesis
    by (cases "map_of (documents s) i") (simp_all add: GetWordFrequencies_eq)
qed

lemma accumulate_plus_word_total:
  assumes inv: "server_invariant s" and m: "fst ` set m \<subseteq> fst ` set (documents s)"
  shows "\<exists>m'. accumulate_plus_word document_predicate s w m = Inr m'
           \<and> fst ` set m' \<subseteq> fst ` set (documents s)"
proof (cases "map_of (word_to_document_freqs s) w")
  case None
  then show ?thesis using m by (simp add: accumulate_plus_word_def map_contains_def)
next
  case (Some freqs)
  have "\<exists>m'. for_each (accumulate_document document_predicate x s) freqs m = Inr m'
           \<and> fst ` set m' \<subseteq> fst ` set (documents s)" for x
  proof (rule for_each_invariant [where P = "\<lambda>m. fst ` set m \<subseteq> fst ` set (documents s)"])
    show "fst ` set m \<subseteq> fst ` set (documents s)" by (rule m)
  next
    fix pair and a :: "(int \<times> real) list"
    assume p: "pair \<in> set freqs" and a: "fst ` set a \<subseteq> fst ` set (documents s)"
    from p have "fst pair \<in> fst ` set freqs" by (rule imageI)
    from inv_entry_has_document [OF inv Some this]
    obtain d where d: "map_of (documents s) (fst pair) = Some d" by blast
    then have "fst pair \<in> fst ` set (documents s)"
      by (metis map_of_eq_None_iff option.distinct(1))
    with a d show "\<exists>a'. accumulate_document document_predicate x s pair a = Inr a'
        \<and> fst ` set a' \<subseteq> fst ` set (documents s)"
      by (simp add: accumulate_document_def map_at_def keys_AddToValue)
  qed
  then show ?thesis
    by (simp add: accumulate_plus_word_def map_contains_def Some
        ComputeWordInverseDocumentFreq_def map_at_def)
qed

lemma for_each_Erase:
  "\<exists>m'. for_each (\<lambda>pair m. Inr (Erase (fst pair) m)) ps m = Inr m'
        \<and> fst ` set m' = fst ` set m - fst ` set ps"
proof (induction ps arbitrary: m)
  case Nil
  show ?case by simp
next
  case (Cons p ps)
  from Cons.IH [of "Erase (fst p) m"] show ?case
    by (auto simp: Erase_def keys_map_erase)
qed

lemma erase_minus_word_keys:
  "\<exists>m'. erase_minus_word s w m = Inr m'
        \<and> fst ` set m' = fst ` set m - {i. index_entry s w i}"
proof (cases "map_of (word_to_document_freqs s) w")
  case None
  then show ?thesis
    by (simp add: erase_minus_word_def map_contains_def index_entry_def)
next
  case (Some freqs)
  have "{i. index_entry s w i} = fst ` set freqs"
    by (auto simp: index_entry_def Some map_contains_iff)
  with for_each_Erase [of freqs m] show ?thesis
    by (simp add: erase_minus_word_def map_contains_def Some map_at_def)
qed

lemma for_each_erase_minus_word:
  "\<exists>m'. for_each (erase_minus_word s) ws m = Inr m'
        \<and> fst ` set m' = fst ` set m - {i. \<exists>w \<in> set ws. index_entry s w i}"
proof (induction ws arbitrary: m)
  case Nil
  show ?case by simp
next
  case (Cons w ws)
  obtain m1 where m1: "erase_minus_word s w m = Inr m1"
    "fst ` set m1 = fst ` set m - {i. index_entry s w i}"
    using erase_minus_word_keys [of s w m] by blast
  from Cons.IH [of m1] obtain m' where m': "for_each (erase_minus_word s) ws m1 = Inr m'"
    "fst ` set m' = fst ` set m1 - {i. \<exists>w \<in> set ws. index_entry s w i}" by blast
  have "fst ` set m' = fst ` set m - {i. \<exists>w' \<in> set (w # ws). index_entry s w' i}"
    unfolding m'(2) m1(2) by auto
  then show ?case by (simp add: m1(1) m'(1))
qed

lemma build_documents_total:
  "fst ` set m \<subseteq> fst ` set (documents s) \<Longrightarrow>
     \<exists>docs. build_documents s m = Inr docs \<and> map doc_id docs = map fst m
       \<and> map relevance docs = map snd m"
proof (induction m)
  case Nil
  show ?case by simp
next
  case (Cons p m)
  from Cons.prems have "fst p \<in> fst ` set (documents s)" by simp
  then obtain d where d: "map_of (documents s) (fst p) = Some d"
    by (metis map_of_eq_None_iff not_Some_eq)
  from Cons obtain docs where "build_documents s m = Inr docs" "map doc_id docs = map fst m"
    "map relevance docs = map snd m"
    by auto
  then show ?case by (simp add: map_at_def d)
qed

lemma FindAllDocuments_total:
  assumes inv: "server_invariant s"
  shows "\<exists>docs. FindAllDocuments query document_predicate s = Inr docs
     \<and> doc_id ` set docs \<inter> {i. \<exists>w \<in> set (minus_words query). index_entry s w i} = {}"
proof -
  have "\<exists>m1. for_each (accumulate_plus_word document_predicate s) (plus_words query) [] = Inr m1
      \<and> fst ` set m1 \<subseteq> fst ` set (documents s)"
    by (rule for_each_invariant [where P = "\<lambda>m. fst ` set m \<subseteq> fst ` set (documents s)"])
       (simp_all add: accumulate_plus_word_total [OF inv])
  then obtain m1 where m1:
    "for_each (accumulate_plus_word document_predicate s) (plus_words query) [] = Inr m1"
    "fst ` set m1 \<subseteq> fst ` set (documents s)" by blast
  obtain m2 where m2: "for_each (erase_minus_word s) (minus_words query) m1 = Inr m2"
    "fst ` set m2 = fst ` set m1 - {i. \<exists>w \<in> set (minus_words query). index_entry s w i}"
    using for_each_erase_minus_word [of s "minus_words query" m1] by blast
  have "fst ` set m2 \<subseteq> fst ` set (documents s)" using m1(2) m2(2) by blast
  from build_documents_total [OF this]
  obtain docs where docs: "build_documents s m2 = Inr docs" "map doc_id docs = map fst m2"
    by blast
  have "doc_id ` set docs = fst ` set m2"
    using docs(2) by (metis set_map)
  then have "doc_id ` set docs \<inter> {i. \<exists>w \<in> set (minus_words query). index_entry s w i} = {}"
    unfolding m2(2) by blast
  then show ?thesis
    by (simp add: FindAllDocuments_def m1(1) m2(1) BuildOrdinaryMap_def docs(1))
qed

section \<open>FindTopDocuments\<close>

lemma FindTopDocuments_Inr:
  assumes "ParseQuery raw_query s = Inr query"
    and "FindAllDocuments query document_predicate s = Inr matched_documents"
  shows "\<exists>docs. FindTopDocuments raw_query document_predicate s = Inr docs
     \<and> set docs \<subseteq> set matched_documents"
proof -
  have "set (take n (std_sort document_less matched_documents)) \<subseteq> set matched_documents" for n
    using set_take_subset [of n "std_sort document_less matched_documents"]
    by (simp add: set_std_sort)
  then show ?thesis
    using assms by (simp add: FindTopDocuments_def Let_def set_std_sort)
qed

lemma FindTopDocuments_length:
  "FindTopDocuments raw_query document_predicate s = Inr docs \<Longrightarrow>
     length docs \<le> MAX_RESULT_DOCUMENT_COUNT"
  by (auto simp: FindTopDocuments_def Let_def split: sum.splits if_splits)

text \<open>
  As long as no key of the index views a freed text, \<open>FindTopDocuments\<close> returns for
  every query that parses and every predicate (its loops meet no exception), and a
  document whose stored frequency mapping has a minus-term of the query is not among
  the results, whatever plus-terms it has and whatever the predicate says of it.
\<close>

lemma minus_term_excludes_document_while_keys_live:
  assumes "SearchServer_from_container stop_words_arg = Inr s0"
    and "ParseQuery raw_query (run ops s0) = Inr query"
    and "word \<in> set (minus_words query)"
    and "word \<in> fst ` set (GetWordFrequencies i (run ops s0))"
    and "list_all (\<lambda>v. \<not> text_freed v) (snd (track ops s0))"
  shows "\<exists>docs. FindTopDocuments raw_query document_predicate (run ops s0) = Inr docs
           \<and> i \<notin> doc_id ` set docs"
proof -
  have inv: "server_invariant (run ops s0)"
    using assms(1) by (rule invariant_reachable)
  have "index_entry (run ops s0) word i"
    using assms(4) by (simp add: index_entry_iff inv_lookup [OF inv] map_of_eq_None_iff)
  with assms(3) have ex: "i \<in> {i. \<exists>w \<in> set (minus_words query). index_entry (run ops s0) w i}"
    by blast
  obtain matched where matched:
    "FindAllDocuments query document_predicate (run ops s0) = Inr matched"
    "doc_id ` set matched
       \<inter> {i. \<exists>w \<in> set (minus_words query). index_entry (run ops s0) w i} = {}"
    using FindAllDocuments_total [OF inv, of query document_predicate] by blast
  obtain docs where docs:
    "FindTopDocuments raw_query document_predicate (run ops s0) = Inr docs"
    "set docs \<subseteq> set matched"
    using FindTopDocuments_Inr [OF assms(2) matched(1)] by blast
  have "i \<notin> doc_id ` set docs"
    using ex matched(2) docs(2) by blast
  with docs(1) show ?thesis by blast
qed

text \<open>
  C4. A document with a minus-term of the query is claimed never to be in the result of
  \<open>FindTopDocuments\<close>. The exclusion looks the minus-term up in the inverted index, whose
  keys are views into document texts that \<open>RemoveDocument\<close> destroys. After
  \<open>AddDocument(0, "cat")\<close>, \<open>AddDocument(1, "cat")\<close> and \<open>RemoveDocument(0)\<close>, document 1
  is registered with the word "cat", and the entry that is to exclude it sits under the
  one key of the index, which views the freed text of document 0. The query "dog -cat"
  parses to the plus-term "dog" and the minus-term "cat" and looks both up, and so does
  \<open>AddDocument(2, "dog")\<close> before it: each compares its word with the freed text, and
  whether document 1 is excluded is not defined by the code.
\<close>

theorem minus_term_lookup_reads_freed_text:
  "sole_key_freed
     (snd (track [Add 0 ''cat'' ACTUAL [], Add 1 ''cat'' ACTUAL [], Remove 0] empty_server))
   \<and> 1 \<in> set (Ids
       (fst (track [Add 0 ''cat'' ACTUAL [], Add 1 ''cat'' ACTUAL [], Remove 0] empty_server)))
   \<and> GetWordFrequencies 1
       (fst (track [Add 0 ''cat'' ACTUAL [], Add 1 ''cat'' ACTUAL [], Remove 0] empty_server))
       = [(''cat'', 1)]
   \<and> \<not> map_contains (documents
       (fst (track [Add 0 ''cat'' ACTUAL [], Add 1 ''cat'' ACTUAL [], Remove 0] empty_server))) 0
   \<and> ParseQuery ''dog -cat''
       (fst (track [Add 0 ''cat'' ACTUAL [], Add 1 ''cat'' ACTUAL [], Remove 0] empty_server))
       = Inr \<lparr>plus_words = [''dog''], minus_words = [''cat'']\<rparr>
   \<and> query_looks_up ''dog -cat''
       (fst (track [Add 0 ''cat'' ACTUAL [], Add 1 ''cat'' ACTUAL [], Remove 0] empty_server))
   \<and> AddDocument_looks_up 2 ''dog''
       (fst (track [Add 0 ''cat'' ACTUAL [], Add 1 ''cat'' ACTUAL [], Remove 0] empty_server))"
proof -
  have t: "track [Add 0 ''cat'' ACTUAL [], Add 1 ''cat'' ACTUAL [], Remove 0] empty_server =
     (\<lparr>stop_words = [],
         word_to_document_freqs = [(''cat'', [(1, 1)])],
         documents = [(1, \<lparr>rating = 0, status = ACTUAL, data = ''cat'',
                             word_to_freqs = [(''cat'', 1)]\<rparr>)],
         document_ids = [1]\<rparr>,
      [KeyView ''cat'' 0 True])"
    by (simp add: track_def new_keys_def empty_server_def model_defs)
  show ?thesis
    unfolding t
    by (simp add: sole_key_freed_def query_looks_up_def AddDocument_looks_up_def model_defs)
qed

section \<open>Empty tokens\<close>




lemma SplitIntoWordsNoStop_loop_eq:
  "SplitIntoWordsNoStop_loop s ws acc =
     (if list_all IsValidWord ws then Inr (acc @ filter (\<lambda>w. \<not> IsStopWord w s) ws)
      else Inl invalid_argument)"
  by (induction ws arbitrary: acc) simp_all

lemma SplitIntoWordsNoStop_eq:
  "SplitIntoWordsNoStop t s =
     (if list_all IsValidWord (SplitIntoWords t)
      then Inr (filter (\<lambda>w. \<not> IsStopWord w s) (SplitIntoWords t))
      else Inl invalid_argument)"
  by (simp add: SplitIntoWordsNoStop_def SplitIntoWordsNoStop_loop_eq)





section \<open>Storing twice under one key\<close>

lemma replace_eq:
  "(\<lambda>(k', v'). if k' = k then (k', v) else (k', v')) = (\<lambda>p. if fst p = k then (k, v) else p)"
  by (auto simp: fun_eq_iff)

lemma replace_absent:
  "k \<notin> fst ` set m \<Longrightarrow> map (\<lambda>(k', v'). if k' = k then (k', v) else (k', v')) m = m"
  unfolding replace_eq by (induction m) auto

lemma replace_replace:
  "map (\<lambda>(k', v'). if k' = k then (k', v) else (k', v'))
     (map (\<lambda>(k', v'). if k' = k then (k', u) else (k', v')) m)
   = map (\<lambda>(k', v'). if k' = k then (k', v) else (k', v')) m"
  unfolding replace_eq by (induction m) auto

lemma replace_insort:
  "k \<notin> fst ` set m \<Longrightarrow>
     map (\<lambda>(k', v'). if k' = k then (k', v) else (k', v')) (insort_key fst (k, u) m)
       = insort_key fst (k, v) m"
  unfolding replace_eq
proof (induction m)
  case Nil
  show ?case by simp
next
  case (Cons p m)
  then have k: "fst p \<noteq> k" "k \<notin> fst ` set m" by auto
  have "map (\<lambda>p. if fst p = k then (k, v) else p) m = m"
    using replace_absent [OF k(2), of v] unfolding replace_eq .
  then show ?case
    using k Cons.IH by simp
qed

lemma map_put_twice: "map_put k v (map_put k u m) = map_put k v m"
proof -
  have c: "map_contains (map_put k u m) k"
    by (simp add: map_contains_iff keys_map_put)
  have step: "map_put k v (map_put k u m) =
      map (\<lambda>(k', v'). if k' = k then (k', v) else (k', v')) (map_put k u m)"
    using c by (simp only: map_put_def if_True)
  show ?thesis
  proof (cases "map_contains m k")
    case True
    then have u: "map_put k u m = map (\<lambda>(k', v'). if k' = k then (k', u) else (k', v')) m"
      by (simp only: map_put_def if_True)
    have "map_put k v (map_put k u m) =
        map (\<lambda>(k', v'). if k' = k then (k', v) else (k', v'))
          (map (\<lambda>(k', v'). if k' = k then (k', u) else (k', v')) m)"
      unfolding step by (simp only: u)
    also have "\<dots> = map (\<lambda>(k', v'). if k' = k then (k', v) else (k', v')) m"
      by (rule replace_replace)
    also have "\<dots> = map_put k v m"
      using True by (simp only: map_put_def if_True)
    finally show ?thesis .
  next
    case False
    then have u: "map_put k u m = insort_key fst (k, u) m"
      by (simp only: map_put_def if_False)
    have a: "k \<notin> fst ` set m" using False by (simp add: map_contains_iff)
    have "map_put k v (map_put k u m) =
        map (\<lambda>(k', v'). if k' = k then (k', v) else (k', v')) (insort_key fst (k, u) m)"
      unfolding step by (simp only: u)
    also have "\<dots> = insort_key fst (k, v) m"
      using a by (rule replace_insort)
    also have "\<dots> = map_put k v m"
      using False by (simp only: map_put_def if_False)
    finally show ?thesis .
  qed
qed

lemma map_subscript_map_put: "map_subscript (map_put k v m) k dflt = v"
  by (simp add: map_subscript_def map_of_map_put)

lemma add_to_freqs_twice:
  "add_to_freqs w y (add_to_freqs w x freqs) = add_to_freqs w (x + y) freqs"
  by (simp add: add_to_freqs_def map_subscript_map_put map_put_twice add.assoc)

lemma add_to_index_twice:
  "add_to_index w i y (add_to_index w i x idx) = add_to_index w i (x + y) idx"
  by (simp add: add_to_index_def Let_def map_subscript_map_put map_put_twice add.assoc)

lemma fold_add_to_freqs_replicate:
  "fold (\<lambda>word. add_to_freqs word x) (replicate (Suc n) w) freqs
     = add_to_freqs w (real (Suc n) * x) freqs"
proof (induction n arbitrary: freqs)
  case 0
  show ?case by simp
next
  case (Suc n)
  have "fold (\<lambda>word. add_to_freqs word x) (replicate (Suc (Suc n)) w) freqs
      = fold (\<lambda>word. add_to_freqs word x) (replicate (Suc n) w) (add_to_freqs w x freqs)"
    by simp
  also have "\<dots> = add_to_freqs w (real (Suc n) * x) (add_to_freqs w x freqs)"
    by (rule Suc.IH)
  also have "\<dots> = add_to_freqs w (x + real (Suc n) * x) freqs"
    by (rule add_to_freqs_twice)
  also have "x + real (Suc n) * x = real (Suc (Suc n)) * x"
    by (simp add: algebra_simps)
  finally show ?case .
qed

lemma fold_add_to_index_replicate:
  "fold (\<lambda>word. add_to_index word i x) (replicate (Suc n) w) idx
     = add_to_index w i (real (Suc n) * x) idx"
proof (induction n arbitrary: idx)
  case 0
  show ?case by simp
next
  case (Suc n)
  have "fold (\<lambda>word. add_to_index word i x) (replicate (Suc (Suc n)) w) idx
      = fold (\<lambda>word. add_to_index word i x) (replicate (Suc n) w) (add_to_index w i x idx)"
    by simp
  also have "\<dots> = add_to_index w i (real (Suc n) * x) (add_to_index w i x idx)"
    by (rule Suc.IH)
  also have "\<dots> = add_to_index w i (x + real (Suc n) * x) idx"
    by (rule add_to_index_twice)
  also have "x + real (Suc n) * x = real (Suc (Suc n)) * x"
    by (simp add: algebra_simps)
  finally show ?case .
qed

section \<open>The order of the results\<close>

lemma SplitIntoWords_replicate:
  "CHR '' '' \<notin> set v \<Longrightarrow>
     SplitIntoWords (u @ concat (replicate n (CHR '' '' # v)))
       = SplitIntoWords u @ replicate n v"
proof (induction n)
  case 0
  show ?case by simp
next
  case (Suc n)
  have "replicate (Suc n) (CHR '' '' # v) = replicate n (CHR '' '' # v) @ [CHR '' '' # v]"
    by (simp only: replicate_append_same replicate_Suc)
  then have "u @ concat (replicate (Suc n) (CHR '' '' # v))
      = (u @ concat (replicate n (CHR '' '' # v))) @ CHR '' '' # v"
    by (simp only: concat_append concat.simps append_Nil2 append_assoc)
  then have "SplitIntoWords (u @ concat (replicate (Suc n) (CHR '' '' # v)))
      = SplitIntoWords (u @ concat (replicate n (CHR '' '' # v))) @ SplitIntoWords v"
    by (simp only: SplitIntoWords_space)
  also have "\<dots> = (SplitIntoWords u @ replicate n v) @ [v]"
    using Suc by (simp add: SplitIntoWords_no_space)
  also have "\<dots> = SplitIntoWords u @ replicate (Suc n) v"
    by (simp add: replicate_append_same)
  finally show ?case .
qed

lemma AddDocument_long:
  assumes "stop_words s = []" and "0 \<le> i" and "\<not> map_contains (documents s) i"
  shows "AddDocument i (''w'' @ concat (replicate (Suc n) '' a'')) st ratings s =
     (Inr (),
      s\<lparr>word_to_document_freqs :=
           add_to_index ''a'' i (real (Suc n) * (1 / real (Suc (Suc n))))
             (add_to_index ''w'' i (1 / real (Suc (Suc n))) (word_to_document_freqs s)),
         documents :=
           map_put i
             \<lparr>rating = ComputeAverageRating ratings, status = st,
                data = ''w'' @ concat (replicate (Suc n) '' a''),
                word_to_freqs =
                  add_to_freqs ''a'' (real (Suc n) * (1 / real (Suc (Suc n))))
                    (add_to_freqs ''w'' (1 / real (Suc (Suc n))) [])\<rparr>
             (documents s),
         document_ids := set_insert i (document_ids s)\<rparr>)"
proof -
  have sp: "SplitIntoWords (''w'' @ concat (replicate (Suc n) '' a''))
      = ''w'' # replicate (Suc n) ''a''"
    using SplitIntoWords_replicate [of "''a''" "''w''" "Suc n"]
    by (simp add: SplitIntoWords_no_space)
  have v: "IsValidWord ''w''" "IsValidWord ''a''"
    by (simp_all add: IsValidWord_def char_value_def)
  have ns: "SplitIntoWordsNoStop (''w'' @ concat (replicate (Suc n) '' a'')) s
      = Inr (''w'' # replicate (Suc n) ''a'')"
    unfolding SplitIntoWordsNoStop_eq sp
    using v assms(1) by (simp add: IsStopWord_def list_all_iff)
  have no: "\<not> (i < 0 \<or> map_contains (documents s) i)" using assms(2,3) by simp
  show ?thesis
    unfolding AddDocument_added [OF no ns]
    by (simp only: fold.simps comp_apply fold_add_to_index_replicate
        fold_add_to_freqs_replicate map_put_twice length_Cons length_replicate)
qed

lemma AddDocument_long_document:
  assumes "stop_words s = []" and "0 \<le> i" and "\<not> map_contains (documents s) i"
  shows "AddDocument i (long_document (Suc n)) st ratings s =
     (Inr (),
      s\<lparr>word_to_document_freqs :=
           add_to_index ''a'' i (real (Suc n) * (1 / real (Suc (Suc n))))
             (add_to_index ''w'' i (1 / real (Suc (Suc n))) (word_to_document_freqs s)),
         documents :=
           map_put i
             \<lparr>rating = ComputeAverageRating ratings, status = st,
                data = long_document (Suc n),
                word_to_freqs =
                  add_to_freqs ''a'' (real (Suc n) * (1 / real (Suc (Suc n))))
                    (add_to_freqs ''w'' (1 / real (Suc (Suc n))) [])\<rparr>
             (documents s),
         document_ids := set_insert i (document_ids s)\<rparr>)"
  unfolding long_document_def using assms by (rule AddDocument_long)

lemmas eval_defs = add_to_index_def add_to_freqs_def map_put_def map_contains_def
  map_subscript_def set_insert_def ComputeAverageRating_def int32_div_def
  signed_divide_int_def

lemma tie_break_step1:
  "AddDocument 0 (long_document 707) ACTUAL [5] empty_server =
     (Inr (),
      \<lparr>stop_words = [],
         word_to_document_freqs = [(''a'', [(0, 707 / 708)]), (''w'', [(0, 1 / 708)])],
         documents =
           [(0, \<lparr>rating = 5, status = ACTUAL, data = long_document 707,
                  word_to_freqs = [(''a'', 707 / 708), (''w'', 1 / 708)]\<rparr>)],
         document_ids = [0]\<rparr>)"
proof -
  have e: "(707::nat) = Suc 706" by simp
  show ?thesis
    unfolding e
    by (subst AddDocument_long_document)
       (simp_all add: empty_server_def eval_defs)
qed

lemma tie_break_step2:
  "AddDocument 1 (long_document 706) ACTUAL [1]
      \<lparr>stop_words = [],
         word_to_document_freqs = [(''a'', [(0, 707 / 708)]), (''w'', [(0, 1 / 708)])],
         documents =
           [(0, \<lparr>rating = 5, status = ACTUAL, data = long_document 707,
                  word_to_freqs = [(''a'', 707 / 708), (''w'', 1 / 708)]\<rparr>)],
         document_ids = [0]\<rparr> =
     (Inr (),
      \<lparr>stop_words = [],
         word_to_document_freqs =
           [(''a'', [(0, 707 / 708), (1, 706 / 707)]), (''w'', [(0, 1 / 708), (1, 1 / 707)])],
         documents =
           [(0, \<lparr>rating = 5, status = ACTUAL, data = long_document 707,
                  word_to_freqs = [(''a'', 707 / 708), (''w'', 1 / 708)]\<rparr>),
            (1, \<lparr>rating = 1, status = ACTUAL, data = long_document 706,
                  word_to_freqs = [(''a'', 706 / 707), (''w'', 1 / 707)]\<rparr>)],
         document_ids = [0, 1]\<rparr>)"
proof -
  have e: "(706::nat) = Suc 705" by simp
  show ?thesis
    unfolding e
    by (subst AddDocument_long_document)
       (simp_all add: eval_defs)
qed

lemma tie_break_step3:
  "AddDocument 2 ''b'' ACTUAL []
      \<lparr>stop_words = [],
         word_to_document_freqs =
           [(''a'', [(0, 707 / 708), (1, 706 / 707)]), (''w'', [(0, 1 / 708), (1, 1 / 707)])],
         documents =
           [(0, \<lparr>rating = 5, status = ACTUAL, data = long_document 707,
                  word_to_freqs = [(''a'', 707 / 708), (''w'', 1 / 708)]\<rparr>),
            (1, \<lparr>rating = 1, status = ACTUAL, data = long_document 706,
                  word_to_freqs = [(''a'', 706 / 707), (''w'', 1 / 707)]\<rparr>)],
         document_ids = [0, 1]\<rparr> =
     (Inr (), tie_break_state)"
  by (simp add: model_defs tie_break_state_def)

lemma tie_break_server_eq: "tie_break_server = tie_break_state"
  by (simp add: tie_break_server_def run_def tie_break_step1 tie_break_step2 tie_break_step3)

lemma tie_break_found:
  "FindAllDocuments \<lparr>plus_words = [''w''], minus_words = []\<rparr>
      (\<lambda>i document_status r. document_status = ACTUAL) tie_break_state =
     Inr [Document 0 (ln (3 / 2) / 708) 5, Document 1 (ln (3 / 2) / 707) 1]"
  by (simp add: tie_break_state_def FindAllDocuments_def accumulate_plus_word_def
      accumulate_document_def ComputeWordInverseDocumentFreq_def GetDocumentCount_def
      map_at_def map_contains_def AddToValue_def map_put_def map_subscript_def
      BuildOrdinaryMap_def)

lemma tie_break_query:
  "ParseQuery ''w'' tie_break_state = Inr \<lparr>plus_words = [''w''], minus_words = []\<rparr>"
  by (simp add: tie_break_state_def model_defs)

lemma ln_three_halves: "0 < ln (3 / 2 :: real)" "ln (3 / 2 :: real) \<le> 1 / 2"
proof -
  show "0 < ln (3 / 2 :: real)" by (rule ln_gt_zero) simp
  have "ln (3 / 2 :: real) \<le> 3 / 2 - 1" by (rule ln_le_minus_one) simp
  then show "ln (3 / 2 :: real) \<le> 1 / 2" by simp
qed

lemma tie_break_relevances:
  "ln (3 / 2 :: real) / 708 < ln (3 / 2) / 707"
  "\<bar>ln (3 / 2 :: real) / 707 - ln (3 / 2) / 708\<bar> < 1 / 10 ^ 6"
proof -
  have d: "ln (3 / 2 :: real) / 707 - ln (3 / 2) / 708 = ln (3 / 2) / 500556"
    by simp
  have p: "0 < ln (3 / 2 :: real) / 500556"
    using ln_three_halves(1) by simp
  show "ln (3 / 2 :: real) / 708 < ln (3 / 2) / 707"
    using d p by linarith
  have "ln (3 / 2 :: real) / 500556 \<le> (1 / 2) / 500556"
    using ln_three_halves(2) by (simp add: divide_right_mono)
  also have "\<dots> < 1 / 10 ^ 6" by simp
  finally have "ln (3 / 2 :: real) / 500556 < 1 / 10 ^ 6" .
  then show "\<bar>ln (3 / 2 :: real) / 707 - ln (3 / 2) / 708\<bar> < 1 / 10 ^ 6"
    using d p by simp
qed

lemma tie_break_sorted:
  "std_sort document_less
      [Document 0 (ln (3 / 2) / 708) 5, Document 1 (ln (3 / 2) / 707) 1]
     = [Document 1 (ln (3 / 2) / 707) 1, Document 0 (ln (3 / 2) / 708) 5]"
proof -
  have "document_less (Document 1 (ln (3 / 2) / 707) 1) (Document 0 (ln (3 / 2) / 708) 5)"
    using tie_break_relevances(1) by (simp add: document_less_def)
  then show ?thesis
    by (simp add: std_sort_def insertion_step_def)
qed

text \<open>
  C5. The result of \<open>FindTopDocuments\<close> is claimed to have at most 5 entries and to be in
  descending order of relevance, with neighbours whose relevances differ by less than
  \<open>1e-6\<close> in descending order of rating. The length bound holds. The order does not: the
  comparator puts \<open>lhs\<close> first whenever its relevance is higher, also within \<open>1e-6\<close>, so
  for two documents with close relevances it can hold both ways round, and the sort
  then puts the document with the lower rating first. On the server with document 0 =
  "w" and 707 times " a" (rating 5), document 1 = "w" and 706 times " a" (rating 1) and
  document 2 = "b", the query "w" gives the relevances \<open>ln (3/2) / 708\<close> and
  \<open>ln (3/2) / 707\<close>, less than \<open>1e-6\<close> apart, and the result lists document 1, of
  rating 1, before document 0, of rating 5.
\<close>

theorem FindTopDocuments_rating_tie_break_broken:
  "tie_break_server = tie_break_state
   \<and> FindTopDocuments_default ''w'' tie_break_server
       = Inr [Document 1 (ln (3 / 2) / 707) 1, Document 0 (ln (3 / 2) / 708) 5]
   \<and> \<bar>ln (3 / 2 :: real) / 707 - ln (3 / 2) / 708\<bar> < 1 / 10 ^ 6
   \<and> sint (1 :: int32) < sint (5 :: int32)
   \<and> document_less (Document 1 (ln (3 / 2) / 707) 1) (Document 0 (ln (3 / 2) / 708) 5)
   \<and> document_less (Document 0 (ln (3 / 2) / 708) 5) (Document 1 (ln (3 / 2) / 707) 1)
   \<and> \<not> successively claimed_order
         [Document 1 (ln (3 / 2) / 707) 1, Document 0 (ln (3 / 2) / 708) 5]"
proof -
  have f: "FindTopDocuments_default ''w'' tie_break_server
       = Inr [Document 1 (ln (3 / 2) / 707) 1, Document 0 (ln (3 / 2) / 708) 5]"
    unfolding tie_break_server_eq
    by (simp add: FindTopDocuments_default_def FindTopDocuments_status_def
        FindTopDocuments_def tie_break_query tie_break_found tie_break_sorted
        MAX_RESULT_DOCUMENT_COUNT_def)
  have r: "sint (1 :: int32) < sint (5 :: int32)" by simp
  have l1: "document_less (Document 1 (ln (3 / 2) / 707) 1) (Document 0 (ln (3 / 2) / 708) 5)"
    using tie_break_relevances(1) by (simp add: document_less_def)
  have c: "\<bar>ln (3 / 2 :: real) / 708 - ln (3 / 2) / 707\<bar> < 1 / 10 ^ 6"
    using tie_break_relevances(2) by (simp add: abs_minus_commute)
  have l2: "document_less (Document 0 (ln (3 / 2) / 708) 5) (Document 1 (ln (3 / 2) / 707) 1)"
    unfolding document_less_def using c by simp
  have n: "\<not> successively claimed_order
         [Document 1 (ln (3 / 2) / 707) 1, Document 0 (ln (3 / 2) / 708) 5]"
    using tie_break_relevances(2) by (simp add: claimed_order_def)
  show ?thesis
    by (rule conjI [OF tie_break_server_eq conjI [OF f conjI [OF tie_break_relevances(2)
          conjI [OF r conjI [OF l1 conjI [OF l2 n]]]]]])
qed

end
